(* ===== verification/AVN_Prelude.thy ===== *)
theory AVN_Prelude
  imports Main "HOL-Library.Word" "HOL-Library.Multiset"
begin

text \<open>
  Shared vocabulary of the development: the machine types of Go that the program uses, the
  values that stand for Go errors and panics, and the generic lemmas on lists and words that
  the component theories share.

  A Go \<open>string\<close> is a sequence of bytes and is a \<open>string\<close> here (Isabelle's \<open>char\<close> has eight
  bits); a \<open>[]byte\<close> is a \<open>byte list\<close>; \<open>uint64\<close> is \<open>64 word\<close>, so that \<open>+\<close> and
  \<open>-\<close> wrap as in Go; a pointer that is only read is an \<open>option\<close>. An \<open>error\<close> is its
  message and its dynamic type (the program inspects both). A run-time panic is a value
  of \<open>'a go\<close>, so that every operation that may panic says so in its type.
\<close>

section \<open>Machine types\<close>

type_synonym byte = "8 word"
type_synonym u64 = "64 word"

text \<open>Instants and durations in nanoseconds, as \<open>time.Time\<close> and \<open>time.Duration\<close>.\<close>

type_synonym instant = int
type_synonym duration = int

abbreviation second :: duration where
  "second \<equiv> 1000000000"

abbreviation millisecond :: duration where
  "millisecond \<equiv> 1000000"

section \<open>Errors and panics\<close>

text \<open>
  The dynamic types of errors that the source distinguishes: the four errors of the SDK's
  \<open>common\<close> package that \<open>isFatalAPIError\<close> tests, the two errors of a \<open>context\<close>,
  and every other error.
\<close>

datatype error_kind =
    BadRequest | InternalError | InvalidToken | NotFound
  | Canceled | DeadlineExceeded | OtherError

datatype goerror = GoError (err_kind: error_kind) (err_msg: string)

abbreviation new_error :: "string \<Rightarrow> goerror" where
  "new_error s \<equiv> GoError OtherError s"

datatype panic = NilDeref | IndexOutOfRange | CloseOfClosedChannel

datatype 'a go = Panic panic | Ret (ret: 'a)

primrec go_bind :: "'a go \<Rightarrow> ('a \<Rightarrow> 'b go) \<Rightarrow> 'b go" where
  "go_bind (Panic p) f = Panic p"
| "go_bind (Ret x) f = f x"

primrec go_ok :: "'a go \<Rightarrow> bool" where
  "go_ok (Panic p) = False"
| "go_ok (Ret x) = True"

named_theorems go_simps \<open>elimination rules for sequenced computations\<close>

lemma go_bind_eq_Ret [go_simps]: "go_bind m f = Ret y \<longleftrightarrow> (\<exists>x. m = Ret x \<and> f x = Ret y)"
  by (cases m) auto

lemma go_bind_Ret_right [simp]: "go_bind m Ret = m"
  by (cases m) auto

lemma go_bind_assoc: "go_bind (go_bind m f) g = go_bind m (\<lambda>x. go_bind (f x) g)"
  by (cases m) auto

lemma go_ok_iff: "go_ok m \<longleftrightarrow> (\<exists>x. m = Ret x)"
  by (cases m) auto

lemma go_ok_bind [go_simps]: "go_ok (go_bind m f) \<longleftrightarrow> (\<exists>x. m = Ret x \<and> go_ok (f x))"
  by (cases m) auto

text \<open>A loop whose body may panic.\<close>

primrec go_map :: "('a \<Rightarrow> 'b go) \<Rightarrow> 'a list \<Rightarrow> 'b list go" where
  "go_map f [] = Ret []"
| "go_map f (x # xs) = go_bind (f x) (\<lambda>y. go_bind (go_map f xs) (\<lambda>ys. Ret (y # ys)))"

lemma go_map_Ret: "(\<And>x. x \<in> set xs \<Longrightarrow> f x = Ret (g x)) \<Longrightarrow> go_map f xs = Ret (map g xs)"
  by (induction xs) auto

lemma go_map_ok: "go_ok (go_map f xs) \<longleftrightarrow> (\<forall>x \<in> set xs. go_ok (f x))"
  by (induction xs) (auto simp: go_simps go_ok_iff)

section \<open>Lists\<close>

lemma sort_key_perm_unique:
  assumes "mset xs = mset ys" and "inj_on f (set xs)"
  shows "sort_key f xs = sort_key f ys"
proof (rule properties_for_sort_key)
  show "mset (sort_key f ys) = mset xs" by (simp add: assms(1))
  have eq: "filter (\<lambda>x. f k = f x) xs = filter (\<lambda>x. x = k) xs" if "k \<in> set xs" for k
    using that assms(2) by (intro filter_cong) (auto dest: inj_onD)
  have set_eq: "set ys = set xs" using assms(1) by (metis set_mset_mset)
  have flt: "filter (\<lambda>x. x = k) zs = replicate (count (mset zs) k) k" for k and zs :: "'a list"
    by (induction zs) auto
  fix k assume "k \<in> set (sort_key f ys)"
  then have k: "k \<in> set xs" using set_eq by simp
  have "filter (\<lambda>x. f k = f x) (sort_key f ys) = filter (\<lambda>x. f k = f x) ys"
    by (metis (mono_tags, lifting) filter_cong sort_key_stable)
  also have "\<dots> = filter (\<lambda>x. x = k) ys"
    using assms(2) set_eq k by (intro filter_cong) (auto dest: inj_onD)
  also have "\<dots> = filter (\<lambda>x. x = k) xs" by (simp add: flt assms(1))
  finally show "filter (\<lambda>x. f k = f x) (sort_key f ys) = filter (\<lambda>x. f k = f x) xs"
    using eq[OF k] by simp
qed simp

end
