(* ===== verification/LRU.thy ===== *)
theory LRU
  imports AVN_Prelude
begin

text \<open>
  The interface of \<open>github.com/hashicorp/golang-lru\<close> that the block caches use:
  \<open>New\<close>, \<open>Peek\<close>, \<open>Get\<close> and \<open>PeekOrAdd\<close>, with keys of type \<open>uint64\<close> and
  references to cache entries as values. The package is not part of the repository: its
  operations are the fields of a record that every definition of the block caches takes as a
  parameter, and the locales \<open>lru_ops\<close> and \<open>lru_contract\<close> state its documented behaviour. The second
  half gives a bounded list in order of use, which meets the contract; the witnesses of the
  development run on it.
\<close>

section \<open>The interface\<close>

text \<open>\<open>PeekOrAdd\<close> returns the previous value if the key was present and adds the new one
  otherwise.\<close>

record 'l lru =
  lru_New :: "nat \<Rightarrow> 'l"
  lru_Peek :: "'l \<Rightarrow> u64 \<Rightarrow> nat option"
  lru_Get :: "'l \<Rightarrow> u64 \<Rightarrow> nat option \<times> 'l"
  lru_PeekOrAdd :: "'l \<Rightarrow> u64 \<Rightarrow> nat \<Rightarrow> nat option \<times> 'l"

locale lru_ops =
  fixes lru :: "'l lru"
    and linv :: "'l \<Rightarrow> bool"
    and cap :: "'l \<Rightarrow> nat"
  assumes get_result: "linv c \<Longrightarrow> fst (lru_Get lru c k) = lru_Peek lru c k"
    and get_peek: "linv c \<Longrightarrow> lru_Peek lru (snd (lru_Get lru c k)) k' = lru_Peek lru c k'"
    and get_inv: "linv c \<Longrightarrow> linv (snd (lru_Get lru c k)) \<and> cap (snd (lru_Get lru c k)) = cap c"
    and add_hit: "linv c \<Longrightarrow> lru_Peek lru c k = Some v' \<Longrightarrow> lru_PeekOrAdd lru c k v = (Some v', c)"
    and add_miss: "linv c \<Longrightarrow> lru_Peek lru c k = None \<Longrightarrow> fst (lru_PeekOrAdd lru c k v) = None"
    and add_new: "linv c \<Longrightarrow> lru_Peek lru c k = None \<Longrightarrow>
      lru_Peek lru (snd (lru_PeekOrAdd lru c k v)) k = Some v"
    and add_evict: "linv c \<Longrightarrow> lru_Peek lru c k = None \<Longrightarrow>
      \<exists>ev. (\<forall>k'. k' \<noteq> k \<longrightarrow> lru_Peek lru (snd (lru_PeekOrAdd lru c k v)) k'
                = (if ev = Some k' then None else lru_Peek lru c k'))
         \<and> (card (dom (lru_Peek lru c)) < cap c \<longrightarrow> ev = None)"
    and add_inv: "linv c \<Longrightarrow> linv (snd (lru_PeekOrAdd lru c k v))
      \<and> cap (snd (lru_PeekOrAdd lru c k v)) = cap c"
    and bounded: "linv c \<Longrightarrow> finite (dom (lru_Peek lru c)) \<and> card (dom (lru_Peek lru c)) \<le> cap c"
begin

text \<open>What is found after an addition is the new pair or was there before.\<close>

lemma add_peek_cases:
  assumes "linv c" "lru_Peek lru (snd (lru_PeekOrAdd lru c k v)) k' = Some w"
  shows "lru_Peek lru c k' = Some w \<or> (k' = k \<and> w = v \<and> lru_Peek lru c k = None)"
proof (cases "lru_Peek lru c k")
  case None
  obtain ev where "\<forall>k'. k' \<noteq> k \<longrightarrow> lru_Peek lru (snd (lru_PeekOrAdd lru c k v)) k'
      = (if ev = Some k' then None else lru_Peek lru c k')"
    using add_evict[OF assms(1) None] by blast
  with None assms add_new[OF assms(1) None, of v] show ?thesis
    by (cases "k' = k") (auto split: if_splits)
next
  case (Some v')
  with assms show ?thesis using add_hit[OF assms(1) Some, of v] by simp
qed

lemma add_result: "linv c \<Longrightarrow> fst (lru_PeekOrAdd lru c k v) = lru_Peek lru c k"
  using add_hit add_miss by (cases "lru_Peek lru c k") simp_all

lemma add_hit_state: "linv c \<Longrightarrow> lru_Peek lru c k = Some v' \<Longrightarrow> snd (lru_PeekOrAdd lru c k v) = c"
  by (simp add: add_hit)

end

text \<open>
  The whole contract adds what \<open>New\<close> returns. The capacity is fixed at creation, so the laws
  also hold for the invariant that names it.
\<close>

locale lru_contract = lru_ops +
  assumes new_inv: "0 < n \<Longrightarrow> linv (lru_New lru n) \<and> cap (lru_New lru n) = n"
    and new_empty: "0 < n \<Longrightarrow> lru_Peek lru (lru_New lru n) k = None"

sublocale lru_contract < sized: lru_ops lru "\<lambda>c. linv c \<and> cap c = 1000" cap
proof unfold_locales
  show "\<exists>ev. (\<forall>k'. k' \<noteq> k \<longrightarrow> lru_Peek lru (snd (lru_PeekOrAdd lru c k v)) k'
                = (if ev = Some k' then None else lru_Peek lru c k'))
         \<and> (card (dom (lru_Peek lru c)) < cap c \<longrightarrow> ev = None)"
    if "linv c \<and> cap c = 1000" "lru_Peek lru c k = None" for c k v
    using that add_evict by blast
  show "finite (dom (lru_Peek lru c)) \<and> card (dom (lru_Peek lru c)) \<le> cap c"
    if "linv c \<and> cap c = 1000" for c
    using that bounded by blast
qed (simp_all add: get_result get_peek get_inv add_hit add_miss add_new add_inv)

section \<open>A bounded list in order of use\<close>

text \<open>The capacity and the entries, the most recently used first.\<close>

type_synonym lru_list = "nat \<times> (u64 \<times> nat) list"

definition lrul_New :: "nat \<Rightarrow> lru_list" where
  "lrul_New n = (n, [])"

definition lrul_Peek :: "lru_list \<Rightarrow> u64 \<Rightarrow> nat option" where
  "lrul_Peek c k = map_of (snd c) k"

definition lrul_Get :: "lru_list \<Rightarrow> u64 \<Rightarrow> nat option \<times> lru_list" where
  "lrul_Get c k =
     (case map_of (snd c) k of
        None \<Rightarrow> (None, c)
      | Some v \<Rightarrow> (Some v, (fst c, (k, v) # filter (\<lambda>p. fst p \<noteq> k) (snd c))))"

definition lrul_PeekOrAdd :: "lru_list \<Rightarrow> u64 \<Rightarrow> nat \<Rightarrow> nat option \<times> lru_list" where
  "lrul_PeekOrAdd c k v =
     (case map_of (snd c) k of
        Some v' \<Rightarrow> (Some v', c)
      | None \<Rightarrow> (None, (fst c, take (fst c) ((k, v) # snd c))))"

definition lru_list_ops :: "lru_list lru" where
  "lru_list_ops = \<lparr>lru_New = lrul_New, lru_Peek = lrul_Peek, lru_Get = lrul_Get,
                   lru_PeekOrAdd = lrul_PeekOrAdd\<rparr>"

definition lrul_inv :: "lru_list \<Rightarrow> bool" where
  "lrul_inv c \<longleftrightarrow> 0 < fst c \<and> length (snd c) \<le> fst c \<and> distinct (map fst (snd c))"

lemmas lrul_defs = lru_list_ops_def lrul_New_def lrul_Peek_def lrul_Get_def lrul_PeekOrAdd_def lrul_inv_def

lemma distinct_filter_length:
  assumes "distinct (map fst xs)" "map_of xs k = Some v"
  shows "Suc (length (filter (\<lambda>p. fst p \<noteq> k) xs)) = length xs"
  using assms
proof (induction xs)
  case (Cons x xs)
  show ?case
  proof (cases "fst x = k")
    case True
    then have "filter (\<lambda>p. fst p \<noteq> k) xs = xs"
      using Cons.prems(1) by (intro filter_True) (auto simp: image_iff)
    with True show ?thesis by simp
  next
    case False
    with Cons show ?thesis by (cases x) auto
  qed
qed simp

lemma map_of_filter_neq: "map_of (filter (\<lambda>p. fst p \<noteq> k) xs) k' = (if k' = k then None else map_of xs k')"
  by (induction xs) auto

lemma lrul_Get_inv: "lrul_inv c \<Longrightarrow> lrul_inv (snd (lrul_Get c k)) \<and> fst (snd (lrul_Get c k)) = fst c"
  using distinct_filter_length[of "snd c" k]
  by (auto simp: lrul_inv_def lrul_Get_def distinct_map_filter split: option.splits)

lemma lrul_add_evict:
  assumes "lrul_inv c" "lrul_Peek c k = None"
  shows "\<exists>ev. (\<forall>k'. k' \<noteq> k \<longrightarrow> lrul_Peek (snd (lrul_PeekOrAdd c k v)) k'
                = (if ev = Some k' then None else lrul_Peek c k'))
         \<and> (card (dom (lrul_Peek c)) < fst c \<longrightarrow> ev = None)"
proof -
  obtain n xs where c: "c = (n, xs)" by (cases c)
  have n: "0 < n" "length xs \<le> n" "distinct (map fst xs)" using assms(1) by (simp_all add: c lrul_inv_def)
  have card: "card (dom (map_of xs)) = length xs"
    using distinct_card[OF n(3)] by (simp add: dom_map_of_conv_image_fst)
  show ?thesis
  proof (cases "length xs < n")
    case True
    then show ?thesis
      using assms(2) by (intro exI[of _ None]) (auto simp: c lrul_Peek_def lrul_PeekOrAdd_def)
  next
    case False
    then have len: "length xs = n" using n by simp
    then obtain ys k0 v0 where xs: "xs = ys @ [(k0, v0)]" using n(1) by (cases xs rule: rev_cases) auto
    have "map_of ys k0 = None" using n(3) by (auto simp: xs map_of_eq_None_iff image_iff)
    then have *: "map_of ys k' = (if k' = k0 then None else map_of xs k')" for k'
      by (auto simp: xs map_add_def split: option.splits)
    have t: "take n ((k, v) # xs) = (k, v) # ys" using len by (auto simp: xs)
    have "\<not> card (dom (lrul_Peek c)) < fst c" using card len by (simp add: c lrul_Peek_def [abs_def])
    then show ?thesis
      using assms(2)
      by (intro exI[of _ "Some k0"]) (auto simp: c lrul_Peek_def lrul_PeekOrAdd_def t * simp del: take_Suc_Cons)
  qed
qed

lemma lrul_add_inv:
  assumes "lrul_inv c"
  shows "lrul_inv (snd (lrul_PeekOrAdd c k v)) \<and> fst (snd (lrul_PeekOrAdd c k v)) = fst c"
proof (cases "map_of (snd c) k")
  case None
  then have "distinct (map fst ((k, v) # snd c))" using assms by (auto simp: lrul_inv_def map_of_eq_None_iff)
  then have "distinct (map fst (take (fst c) ((k, v) # snd c)))"
    unfolding take_map [symmetric] by (rule distinct_take)
  with None assms show ?thesis by (simp add: lrul_inv_def lrul_PeekOrAdd_def)
qed (use assms in \<open>simp add: lrul_PeekOrAdd_def\<close>)

interpretation lrul: lru_contract lru_list_ops lrul_inv fst
proof
  fix c :: lru_list and k :: u64 and v :: nat
  assume inv: "lrul_inv c"
  show "fst (lru_Get lru_list_ops c k) = lru_Peek lru_list_ops c k"
    by (simp add: lrul_defs split: option.splits)
  show "lru_Peek lru_list_ops (snd (lru_Get lru_list_ops c k)) k' = lru_Peek lru_list_ops c k'" for k'
    by (auto simp: lrul_defs map_of_filter_neq split: option.splits)
  show "lrul_inv (snd (lru_Get lru_list_ops c k)) \<and> fst (snd (lru_Get lru_list_ops c k)) = fst c"
    using lrul_Get_inv[OF inv] by (simp add: lru_list_ops_def)
  show "lrul_inv (snd (lru_PeekOrAdd lru_list_ops c k v))
      \<and> fst (snd (lru_PeekOrAdd lru_list_ops c k v)) = fst c"
    using lrul_add_inv[OF inv] by (simp add: lru_list_ops_def)
  show "finite (dom (lru_Peek lru_list_ops c)) \<and> card (dom (lru_Peek lru_list_ops c)) \<le> fst c"
  proof -
    have "dom (lru_Peek lru_list_ops c) = set (map fst (snd c))"
      by (auto simp: lrul_defs dom_map_of_conv_image_fst [symmetric])
    then show ?thesis using inv card_length[of "map fst (snd c)"] by (simp add: lrul_inv_def)
  qed
  {
    assume none: "lru_Peek lru_list_ops c k = None"
    then show "fst (lru_PeekOrAdd lru_list_ops c k v) = None" by (simp add: lrul_defs)
    show "lru_Peek lru_list_ops (snd (lru_PeekOrAdd lru_list_ops c k v)) k = Some v"
      using none inv by (cases "fst c") (simp_all add: lrul_defs)
    show "\<exists>ev. (\<forall>k'. k' \<noteq> k \<longrightarrow> lru_Peek lru_list_ops (snd (lru_PeekOrAdd lru_list_ops c k v)) k'
                = (if ev = Some k' then None else lru_Peek lru_list_ops c k'))
         \<and> (card (dom (lru_Peek lru_list_ops c)) < fst c \<longrightarrow> ev = None)"
      using lrul_add_evict[OF inv, of k v] none unfolding lru_list_ops_def lru.simps .
  }
  show "lru_PeekOrAdd lru_list_ops c k v = (Some v', c)" if "lru_Peek lru_list_ops c k = Some v'" for v'
    using that by (simp add: lrul_defs)
qed (simp_all add: lrul_defs)

end
