(* ===== verification/Go_Strings.thy ===== *)
theory Go_Strings
  imports AVN_Prelude "HOL-Library.Char_ord" "HOL-Library.List_Lexorder"
begin

text \<open>
  The parts of Go's language and standard library on strings that the program uses:
  conversion between \<open>string\<close> and \<open>[]byte\<close>, the runes a \<open>range\<close> over a string yields
  (UTF-8 decoding), \<open>base64.StdEncoding.EncodeToString\<close>, \<open>strconv.ParseInt\<close>,
  \<open>strings.SplitN\<close>, \<open>strings.TrimPrefix\<close>, \<open>strings.EqualFold\<close> and
  \<open>strings.ToLower\<close>. Strings are ordered by their bytes (\<open>Char_ord\<close> and
  \<open>List_Lexorder\<close>), which is the order of \<open>sort.Strings\<close>. The lemmas show that the
  base64 encoding can be decoded, which integers \<open>ParseInt\<close> accepts, and which
  strings decode to the runes of valid UTF-8.
\<close>

section \<open>Bytes\<close>

definition bytes_of :: "string \<Rightarrow> byte list" where
  "bytes_of s = map of_char s"

definition string_of :: "byte list \<Rightarrow> string" where
  "string_of bs = map (\<lambda>b. char_of (unat b)) bs"

section \<open>base64.StdEncoding\<close>

definition b64_alphabet :: string where
  "b64_alphabet = ''ABCDEFGHIJKLMNOPQRSTUVWXYZabcdefghijklmnopqrstuvwxyz0123456789+/''"

definition b64_char :: "nat \<Rightarrow> char" where
  "b64_char n = b64_alphabet ! n"

fun b64_encode_nat :: "nat list \<Rightarrow> string" where
  "b64_encode_nat [] = []"
| "b64_encode_nat [a] = [b64_char (a div 4), b64_char (a mod 4 * 16), CHR ''='', CHR ''='']"
| "b64_encode_nat [a, b] =
     [b64_char (a div 4), b64_char (a mod 4 * 16 + b div 16), b64_char (b mod 16 * 4), CHR ''='']"
| "b64_encode_nat (a # b # c # rest) =
     b64_char (a div 4) # b64_char (a mod 4 * 16 + b div 16)
       # b64_char (b mod 16 * 4 + c div 64) # b64_char (c mod 64) # b64_encode_nat rest"

definition EncodeToString :: "byte list \<Rightarrow> string" where
  "EncodeToString bs = b64_encode_nat (map unat bs)"

text \<open>A decoder for the round trip: the position of each character in the alphabet.\<close>

fun find_index :: "'a \<Rightarrow> 'a list \<Rightarrow> nat option" where
  "find_index x [] = None"
| "find_index x (y # ys) = (if x = y then Some 0 else map_option Suc (find_index x ys))"

definition b64_val :: "char \<Rightarrow> nat" where
  "b64_val c = (case find_index c b64_alphabet of None \<Rightarrow> 0 | Some n \<Rightarrow> n)"

fun b64_decode_nat :: "string \<Rightarrow> nat list" where
  "b64_decode_nat (p # q # r # s # rest) =
     (let a = b64_val p * 4 + b64_val q div 16;
          b = b64_val q mod 16 * 16 + b64_val r div 4;
          c = b64_val r mod 4 * 64 + b64_val s
      in if r = CHR ''='' then [a]
         else if s = CHR ''='' then [a, b]
         else a # b # c # b64_decode_nat rest)"
| "b64_decode_nat _ = []"

definition DecodeString :: "string \<Rightarrow> byte list" where
  "DecodeString s = map of_nat (b64_decode_nat s)"

section \<open>UTF-8\<close>

abbreviation RuneError :: nat where
  "RuneError \<equiv> 65533"

definition utf8_cont :: "nat \<Rightarrow> bool" where
  "utf8_cont b \<longleftrightarrow> 128 \<le> b \<and> b \<le> 191"

text \<open>
  \<open>utf8_second b0 b1\<close>: \<open>b1\<close> is an acceptable second byte after the first byte \<open>b0\<close>
  (the ranges exclude overlong forms, surrogates and values beyond U+10FFFF).
\<close>

definition utf8_second :: "nat \<Rightarrow> nat \<Rightarrow> bool" where
  "utf8_second b0 b1 \<longleftrightarrow>
     (if b0 = 224 then 160 \<le> b1 \<and> b1 \<le> 191
      else if b0 = 237 then 128 \<le> b1 \<and> b1 \<le> 159
      else if b0 = 240 then 144 \<le> b1 \<and> b1 \<le> 191
      else if b0 = 244 then 128 \<le> b1 \<and> b1 \<le> 143
      else utf8_cont b1)"

definition DecodeRune :: "nat list \<Rightarrow> nat \<times> nat" where
  "DecodeRune bs =
     (case bs of
        [] \<Rightarrow> (RuneError, 0)
      | b0 # r \<Rightarrow>
          if b0 < 128 then (b0, 1)
          else if 194 \<le> b0 \<and> b0 \<le> 223 \<and> 1 \<le> length r \<and> utf8_second b0 (r ! 0)
          then (b0 mod 32 * 64 + r ! 0 mod 64, 2)
          else if 224 \<le> b0 \<and> b0 \<le> 239 \<and> 2 \<le> length r \<and> utf8_second b0 (r ! 0) \<and> utf8_cont (r ! 1)
          then (b0 mod 16 * 4096 + r ! 0 mod 64 * 64 + r ! 1 mod 64, 3)
          else if 240 \<le> b0 \<and> b0 \<le> 244 \<and> 3 \<le> length r \<and> utf8_second b0 (r ! 0)
            \<and> utf8_cont (r ! 1) \<and> utf8_cont (r ! 2)
          then (b0 mod 8 * 262144 + r ! 0 mod 64 * 4096 + r ! 1 mod 64 * 64 + r ! 2 mod 64, 4)
          else (RuneError, 1))"

lemma DecodeRune_progress [termination_simp]: "bs \<noteq> [] \<Longrightarrow> 0 < snd (DecodeRune bs)"
  by (cases bs) (auto simp: DecodeRune_def)

function runes_nat :: "nat list \<Rightarrow> nat list" where
  "runes_nat bs = (if bs = [] then [] else fst (DecodeRune bs) # runes_nat (drop (snd (DecodeRune bs)) bs))"
  by pat_completeness auto
termination
  by (relation "measure length") (auto simp: DecodeRune_progress)

declare runes_nat.simps [simp del]

text \<open>The runes that \<open>for _, c := range s\<close> yields.\<close>

definition range_runes :: "string \<Rightarrow> nat list" where
  "range_runes s = runes_nat (map of_char s)"

section \<open>strconv.ParseInt(s, 10, 64)\<close>

definition digit_val :: "char \<Rightarrow> nat option" where
  "digit_val c = (let n = of_char c :: nat in if 48 \<le> n \<and> n \<le> 57 then Some (n - 48) else None)"

text \<open>The loop of \<open>ParseUint\<close>: \<open>cutoff\<close> is \<open>maxUint64/10 + 1\<close>.\<close>

fun parse_uint_loop :: "nat \<Rightarrow> string \<Rightarrow> nat option" where
  "parse_uint_loop n [] = Some n"
| "parse_uint_loop n (c # cs) =
     (case digit_val c of
        None \<Rightarrow> None
      | Some d \<Rightarrow>
          if 1844674407370955162 \<le> n then None
          else let n1 = 10 * n + d in if 2 ^ 64 \<le> n1 then None else parse_uint_loop n1 cs)"

definition ParseUint :: "string \<Rightarrow> nat option" where
  "ParseUint s = (if s = [] then None else parse_uint_loop 0 s)"

text \<open>\<open>None\<close> is a non-nil error.\<close>

definition ParseInt :: "string \<Rightarrow> int option" where
  "ParseInt s =
     (case s of
        [] \<Rightarrow> None
      | c # cs \<Rightarrow>
          let neg = (c = CHR ''-'');
              body = (if c = CHR ''+'' \<or> c = CHR ''-'' then cs else s)
          in case ParseUint body of
               None \<Rightarrow> None
             | Some un \<Rightarrow>
                 if \<not> neg \<and> 2 ^ 63 \<le> un then None
                 else if neg \<and> 2 ^ 63 < un then None
                 else Some (if neg then - int un else int un))"

section \<open>Decimal formatting\<close>

text \<open>The verb \<open>%d\<close> of package \<open>fmt\<close> for an unsigned number.\<close>

definition digit_char :: "nat \<Rightarrow> char" where
  "digit_char d = char_of (48 + d)"

fun format_nat :: "nat \<Rightarrow> string" where
  "format_nat n = (if n < 10 then [digit_char n] else format_nat (n div 10) @ [digit_char (n mod 10)])"

declare format_nat.simps [simp del]

section \<open>Package strings\<close>

text \<open>\<open>strings.SplitN(s, " ", 2)\<close>.\<close>

fun SplitN2 :: "char \<Rightarrow> string \<Rightarrow> string list" where
  "SplitN2 sep s =
     (let pre = takeWhile (\<lambda>c. c \<noteq> sep) s; post = dropWhile (\<lambda>c. c \<noteq> sep) s
      in case post of [] \<Rightarrow> [s] | _ # rest \<Rightarrow> [pre, rest])"

fun TrimPrefix :: "string \<Rightarrow> string \<Rightarrow> string" where
  "TrimPrefix s pre = (if take (length pre) s = pre then drop (length pre) s else s)"

definition ascii_lower :: "char \<Rightarrow> char" where
  "ascii_lower c = (let n = of_char c :: nat in if 65 \<le> n \<and> n \<le> 90 then char_of (n + 32) else c)"

definition is_ascii :: "string \<Rightarrow> bool" where
  "is_ascii s \<longleftrightarrow> list_all (\<lambda>c. (of_char c :: nat) < 128) s"

text \<open>
  \<open>strings.EqualFold\<close> for a first argument of ASCII letters none of which folds to a rune
  beyond ASCII (every letter but \<open>k\<close> and \<open>s\<close>), which is how the source calls it.
\<close>

definition EqualFold :: "string \<Rightarrow> string \<Rightarrow> bool" where
  "EqualFold s t \<longleftrightarrow> map ascii_lower s = map ascii_lower t"

text \<open>
  \<open>strings.ToLower\<close>: the ASCII path, and the Unicode tables as a parameter for a string
  that holds another byte.
\<close>

definition ToLower :: "(string \<Rightarrow> string) \<Rightarrow> string \<Rightarrow> string" where
  "ToLower unicode_lower s = (if is_ascii s then map ascii_lower s else unicode_lower s)"

section \<open>Lemmas: base64\<close>

lemma b64_val_char: "n < 64 \<Longrightarrow> b64_val (b64_char n) = n"
proof -
  have "\<forall>n \<in> set [0..<64]. b64_val (b64_char n) = n" by code_simp
  then show "n < 64 \<Longrightarrow> b64_val (b64_char n) = n" by simp
qed

lemma b64_char_not_pad: "n < 64 \<Longrightarrow> b64_char n \<noteq> CHR ''=''"
proof -
  have "\<forall>n \<in> set [0..<64]. b64_char n \<noteq> CHR ''=''" by code_simp
  then show "n < 64 \<Longrightarrow> b64_char n \<noteq> CHR ''=''" by simp
qed

lemma b64_sextets:
  assumes "(a::nat) < 256" "b < 256" "c < 256"
  shows "a div 4 < 64" "a mod 4 * 16 < 64" "a mod 4 * 16 + b div 16 < 64" "b mod 16 * 4 < 64"
    "b mod 16 * 4 + c div 64 < 64" "c mod 64 < 64"
    "a div 4 * 4 + (a mod 4 * 16 + b div 16) div 16 = a"
    "a div 4 * 4 + a mod 4 * 16 div 16 = a"
    "(a mod 4 * 16 + b div 16) mod 16 * 16 + (b mod 16 * 4 + c div 64) div 4 = b"
    "(a mod 4 * 16 + b div 16) mod 16 * 16 + b mod 16 * 4 div 4 = b"
    "(b mod 16 * 4 + c div 64) mod 4 * 64 + c mod 64 = c"
proof -
  have "a mod 4 \<le> 3" "b div 16 \<le> 15" "b mod 16 \<le> 15" "c div 64 \<le> 3"
    using assms by (auto simp: less_Suc_eq_le [symmetric])
  then show "a div 4 < 64" "a mod 4 * 16 < 64" "a mod 4 * 16 + b div 16 < 64" "b mod 16 * 4 < 64"
    "b mod 16 * 4 + c div 64 < 64" "c mod 64 < 64"
    "a div 4 * 4 + (a mod 4 * 16 + b div 16) div 16 = a"
    "a div 4 * 4 + a mod 4 * 16 div 16 = a"
    "(a mod 4 * 16 + b div 16) mod 16 * 16 + (b mod 16 * 4 + c div 64) div 4 = b"
    "(a mod 4 * 16 + b div 16) mod 16 * 16 + b mod 16 * 4 div 4 = b"
    "(b mod 16 * 4 + c div 64) mod 4 * 64 + c mod 64 = c"
    using assms by (simp_all add: less_mult_imp_div_less)
qed

lemma b64_decode_encode_nat: "\<forall>x \<in> set bs. x < 256 \<Longrightarrow> b64_decode_nat (b64_encode_nat bs) = bs"
proof (induction bs rule: b64_encode_nat.induct)
  case (2 a)
  then show ?case using b64_sextets[of a 0 0] by (simp add: b64_val_char Let_def)
next
  case (3 a b)
  then show ?case
    using b64_sextets[of a b 0] by (simp add: b64_val_char b64_char_not_pad Let_def)
next
  case (4 a b c rest)
  then show ?case
    using b64_sextets[of a b c] by (simp add: b64_val_char b64_char_not_pad Let_def)
qed simp

lemma DecodeString_EncodeToString [simp]: "DecodeString (EncodeToString bs) = bs"
proof -
  have "\<forall>x \<in> set (map unat bs). x < 256"
    by (auto intro: order_less_le_trans[OF unsigned_less])
  then show ?thesis
    by (simp add: DecodeString_def EncodeToString_def b64_decode_encode_nat o_def)
qed

lemma EncodeToString_inj: "EncodeToString xs = EncodeToString ys \<longleftrightarrow> xs = ys"
  by (metis DecodeString_EncodeToString)

lemma unat_of_char [simp]: "unat (of_char c :: byte) = of_char c"
  using unat_of_nat[of "of_char c", where 'a = 8] of_char_mod_256[of c, where 'a = nat]
    of_nat_of_char[of c, where 'a = byte] by simp

lemma string_of_bytes_of [simp]: "string_of (bytes_of s) = s"
  by (induction s) (simp_all add: string_of_def bytes_of_def)

lemma bytes_of_string_of [simp]: "bytes_of (string_of bs) = bs"
proof (induction bs)
  case (Cons b bs)
  have "unat b < 2 ^ 8" using unsigned_less[of b] by simp
  then have "unat b mod 256 = unat b" by simp
  then have "(of_nat (of_char (char_of (unat b))) :: byte) = b" by (simp only: of_char_of) simp
  then have "(of_char (char_of (unat b)) :: byte) = b" by (simp only: of_nat_of_char)
  with Cons show ?case by (simp add: string_of_def bytes_of_def)
qed (simp add: string_of_def bytes_of_def)

lemma bytes_of_inj: "bytes_of s = bytes_of t \<longleftrightarrow> s = t"
  by (metis string_of_bytes_of)

section \<open>Lemmas: ParseInt\<close>

definition is_digit :: "char \<Rightarrow> bool" where
  "is_digit c \<longleftrightarrow> digit_val c \<noteq> None"

definition decimal_from :: "nat \<Rightarrow> string \<Rightarrow> nat" where
  "decimal_from n s = foldl (\<lambda>a c. 10 * a + the (digit_val c)) n s"

text \<open>The number that a string of decimal digits denotes.\<close>

abbreviation decimal :: "string \<Rightarrow> nat" where
  "decimal \<equiv> decimal_from 0"

lemma decimal_from_simps [simp]:
  "decimal_from n [] = n"
  "decimal_from n (c # cs) = decimal_from (10 * n + the (digit_val c)) cs"
  by (simp_all add: decimal_from_def)

lemma decimal_from_ge: "n \<le> decimal_from n s"
proof (induction s arbitrary: n)
  case (Cons c cs)
  have "10 * n + the (digit_val c) \<le> decimal_from (10 * n + the (digit_val c)) cs" by (rule Cons)
  then show ?case by simp
qed simp

lemma parse_uint_loop_iff:
  "n < 2 ^ 64 \<Longrightarrow>
     parse_uint_loop n s = Some m \<longleftrightarrow> list_all is_digit s \<and> decimal_from n s < 2 ^ 64 \<and> m = decimal_from n s"
proof (induction s arbitrary: n)
  case (Cons c cs)
  show ?case
  proof (cases "digit_val c")
    case (Some d)
    let ?n1 = "10 * n + d"
    show ?thesis
    proof (cases "1844674407370955162 \<le> n \<or> 2 ^ 64 \<le> ?n1")
      case True
      then have "2 ^ 64 \<le> ?n1" by auto
      then have "\<not> decimal_from ?n1 cs < 2 ^ 64" using decimal_from_ge[of ?n1 cs] by linarith
      with True Some show ?thesis by (auto simp: Let_def is_digit_def)
    next
      case False
      with Some Cons.IH[of ?n1] show ?thesis by (auto simp: Let_def is_digit_def)
    qed
  qed (auto simp: is_digit_def)
qed auto

lemma ParseUint_iff:
  "ParseUint s = Some m \<longleftrightarrow> s \<noteq> [] \<and> list_all is_digit s \<and> decimal s < 2 ^ 64 \<and> m = decimal s"
  using parse_uint_loop_iff[of 0 s m] by (auto simp: ParseUint_def)

lemma is_digit_not_sign: "is_digit c \<Longrightarrow> c \<noteq> CHR ''+'' \<and> c \<noteq> CHR ''-''"
  by (auto simp: is_digit_def digit_val_def)

lemma ParseInt_digits:
  assumes "s \<noteq> []" "list_all is_digit s"
  shows "ParseInt s = (if decimal s < 2 ^ 63 then Some (int (decimal s)) else None)"
proof -
  obtain c cs where s: "s = c # cs" using assms(1) by (cases s) auto
  then have c: "c \<noteq> CHR ''+''" "c \<noteq> CHR ''-''" using assms(2) is_digit_not_sign by auto
  show ?thesis
  proof (cases "ParseUint s")
    case None
    then have "\<not> decimal s < 2 ^ 64" using ParseUint_iff[of s "decimal s"] assms by auto
    with None show ?thesis using c by (simp add: ParseInt_def s Let_def)
  next
    case (Some m)
    then have "m = decimal s" by (simp add: ParseUint_iff)
    with Some show ?thesis using c by (auto simp: ParseInt_def s Let_def)
  qed
qed

text \<open>Every accepted string is an optional sign and digits, and its value fits an \<open>int64\<close>.\<close>

lemma ParseInt_SomeD:
  assumes "ParseInt s = Some v"
  shows "- (2 ^ 63) \<le> v \<and> v < 2 ^ 63 \<and>
    (\<exists>sgn ds. s = sgn @ ds \<and> sgn \<in> {[], ''+'', ''-''} \<and> ds \<noteq> [] \<and> list_all is_digit ds
       \<and> v = (if sgn = ''-'' then - int (decimal ds) else int (decimal ds)))"
proof -
  obtain c cs where s: "s = c # cs" using assms by (cases s) (auto simp: ParseInt_def)
  define ds where "ds = (if c = CHR ''+'' \<or> c = CHR ''-'' then cs else c # cs)"
  define sgn where "sgn = (if c = CHR ''+'' \<or> c = CHR ''-'' then [c] else [])"
  from assms obtain un where un: "ParseUint ds = Some un"
    by (auto simp: ParseInt_def s ds_def Let_def split: option.splits)
  have rng: "if c = CHR ''-'' then un \<le> 2 ^ 63 \<and> v = - int un else un < 2 ^ 63 \<and> v = int un"
    using assms un by (auto simp: ParseInt_def s ds_def Let_def split: if_splits)
  have "s = sgn @ ds" "sgn \<in> {[], ''+'', ''-''}" "sgn = ''-'' \<longleftrightarrow> c = CHR ''-''"
    by (auto simp: s ds_def sgn_def)
  moreover have "ds \<noteq> []" "list_all is_digit ds" "un = decimal ds"
    using un by (auto simp: ParseUint_iff)
  moreover have "- (2 ^ 63) \<le> v \<and> v < 2 ^ 63" using rng by (auto split: if_splits)
  moreover have "v = (if sgn = ''-'' then - int (decimal ds) else int (decimal ds))"
    using rng calculation by presburger
  ultimately show ?thesis by blast
qed

text \<open>Formatting and parsing agree.\<close>

lemma digit_val_digit_char: "d < 10 \<Longrightarrow> digit_val (digit_char d) = Some d"
  by (simp add: digit_val_def digit_char_def)

lemma decimal_from_append: "decimal_from n (s @ t) = decimal_from (decimal_from n s) t"
  by (simp add: decimal_from_def)

lemma format_nat_ok: "format_nat n \<noteq> [] \<and> list_all is_digit (format_nat n) \<and> decimal (format_nat n) = n"
proof (induction n rule: format_nat.induct)
  case (1 n)
  have d: "digit_val (digit_char (n mod 10)) = Some (n mod 10)" by (simp add: digit_val_digit_char)
  show ?case
  proof (cases "n < 10")
    case True
    then show ?thesis by (simp add: format_nat.simps[of n] is_digit_def digit_val_digit_char)
  next
    case False
    with 1 d show ?thesis
      by (simp add: format_nat.simps[of n] is_digit_def decimal_from_append)
  qed
qed

lemma ParseInt_format_nat: "n < 2 ^ 63 \<Longrightarrow> ParseInt (format_nat n) = Some (int n)"
  using format_nat_ok[of n] ParseInt_digits[of "format_nat n"] by simp

section \<open>Lemmas: UTF-8\<close>

lemma runes_nat_ascii: "\<forall>b \<in> set bs. b < 128 \<Longrightarrow> runes_nat bs = bs"
proof (induction bs)
  case Nil
  then show ?case by (simp add: runes_nat.simps)
next
  case (Cons b bs)
  then have "DecodeRune (b # bs) = (b, 1)" by (simp add: DecodeRune_def)
  then show ?case using Cons by (subst runes_nat.simps) simp
qed

lemma range_runes_ascii: "is_ascii s \<Longrightarrow> range_runes s = map of_char s"
  unfolding range_runes_def by (rule runes_nat_ascii) (auto simp: is_ascii_def list_all_iff)

end
