(* ===== verification/Algorand_Types.thy ===== *)
theory Algorand_Types
  imports AVN_Prelude
begin

text \<open>
  The data of \<open>github.com/algorand/go-algorand\<close> that the program reads: blocks, signed
  transactions with their apply data, and signatures, restricted to the fields the source
  touches and grouped as the embedded structs group them. Fixed-size byte arrays (addresses,
  digests, keys, signatures) are byte lists; the maps \<open>StateDelta\<close> and
  \<open>LocalDeltas\<close> are association lists in the order in which a \<open>range\<close> visits them,
  so that a theorem about every list with the same entries is a theorem about every
  iteration order.

  The functions of that library which the source calls are the fields of the record
  \<open>go_algorand\<close>, a parameter of every definition that uses them.
\<close>

type_synonym Address = "byte list"

section \<open>Signatures\<close>

record MultisigSubsig =
  ms_Key :: "byte list"
  ms_Sig :: "byte list"

record MultisigSig =
  ms_Version :: "8 word"
  ms_Threshold :: "8 word"
  ms_Subsigs :: "MultisigSubsig list"

record LogicSig =
  ls_Logic :: "byte list"
  ls_Sig :: "byte list"
  ls_Msig :: MultisigSig
  ls_Args :: "byte list list"

section \<open>Transactions\<close>

record ValueDelta =
  vd_Action :: u64
  vd_Bytes :: string
  vd_Uint :: u64

type_synonym basics_StateDelta = "(string \<times> ValueDelta) list"

record basics_StateSchema =
  ss_NumUint :: u64
  ss_NumByteSlice :: u64

record TxnHeader =
  th_Sender :: Address
  th_Fee :: u64
  th_FirstValid :: u64
  th_LastValid :: u64
  th_Note :: "byte list"
  th_GenesisID :: string
  th_GenesisHash :: "byte list"
  th_Group :: "byte list"
  th_Lease :: "byte list"
  th_RekeyTo :: Address

record KeyregTxnFields =
  kr_VotePK :: "byte list"
  kr_SelectionPK :: "byte list"
  kr_StateProofPK :: "byte list"
  kr_VoteFirst :: u64
  kr_VoteLast :: u64
  kr_VoteKeyDilution :: u64
  kr_Nonparticipation :: bool

record PaymentTxnFields =
  pf_Receiver :: Address
  pf_Amount :: u64
  pf_CloseRemainderTo :: Address

record basics_AssetParams =
  ba_Total :: u64
  ba_Decimals :: "32 word"
  ba_DefaultFrozen :: bool
  ba_UnitName :: string
  ba_AssetName :: string
  ba_URL :: string
  ba_MetadataHash :: "byte list"
  ba_Manager :: Address
  ba_Reserve :: Address
  ba_Freeze :: Address
  ba_Clawback :: Address

record AssetConfigTxnFields =
  ac_ConfigAsset :: u64
  ac_AssetParams :: basics_AssetParams

record AssetTransferTxnFields =
  at_XferAsset :: u64
  at_AssetAmount :: u64
  at_AssetSender :: Address
  at_AssetReceiver :: Address
  at_AssetCloseTo :: Address

record AssetFreezeTxnFields =
  af_FreezeAccount :: Address
  af_FreezeAsset :: u64
  af_AssetFrozen :: bool

datatype OnCompletionOC =
    NoOpOC | OptInOC | CloseOutOC | ClearStateOC | UpdateApplicationOC | DeleteApplicationOC
  | OtherOC u64

record ApplicationCallTxnFields =
  ap_ApplicationID :: u64
  ap_OnCompletion :: OnCompletionOC
  ap_ApplicationArgs :: "byte list list"
  ap_Accounts :: "Address list"
  ap_ForeignApps :: "u64 list"
  ap_ForeignAssets :: "u64 list"
  ap_LocalStateSchema :: basics_StateSchema
  ap_GlobalStateSchema :: basics_StateSchema
  ap_ApprovalProgram :: "byte list"
  ap_ClearStateProgram :: "byte list"
  ap_ExtraProgramPages :: "32 word"

record Txn =
  txn_Type :: string
  txn_Header :: TxnHeader
  txn_Keyreg :: KeyregTxnFields
  txn_Payment :: PaymentTxnFields
  txn_AssetConfig :: AssetConfigTxnFields
  txn_AssetTransfer :: AssetTransferTxnFields
  txn_AssetFreeze :: AssetFreezeTxnFields
  txn_ApplicationCall :: ApplicationCallTxnFields

text \<open>The values of \<open>protocol.TxType\<close> that the source compares with.\<close>

definition PaymentTx :: string where
  "PaymentTx = ''pay''"

definition KeyRegistrationTx :: string where
  "KeyRegistrationTx = ''keyreg''"

definition AssetConfigTx :: string where
  "AssetConfigTx = ''acfg''"

definition AssetTransferTx :: string where
  "AssetTransferTx = ''axfer''"

definition AssetFreezeTx :: string where
  "AssetFreezeTx = ''afrz''"

definition ApplicationCallTx :: string where
  "ApplicationCallTx = ''appl''"

lemmas tx_type_defs = PaymentTx_def KeyRegistrationTx_def AssetConfigTx_def AssetTransferTx_def
  AssetFreezeTx_def ApplicationCallTx_def

record SignedTxn =
  stx_Sig :: "byte list"
  stx_Msig :: MultisigSig
  stx_Lsig :: LogicSig
  stx_Txn :: Txn

text \<open>Inner transactions make the apply data recursive.\<close>

datatype SignedTxnWithAD =
  SignedTxnWithAD (sad_SignedTxn: SignedTxn) (sad_ApplyData: ApplyData)
and ApplyData =
  ApplyData (ad_ClosingAmount: u64) (ad_AssetClosingAmount: u64) (ad_SenderRewards: u64)
    (ad_ReceiverRewards: u64) (ad_CloseRewards: u64) (ad_EvalDelta: EvalDeltaAD)
    (ad_ConfigAsset: u64) (ad_ApplicationID: u64)
and EvalDeltaAD =
  EvalDeltaAD (ed_GlobalDelta: basics_StateDelta) (ed_LocalDeltas: "(u64 \<times> basics_StateDelta) list")
    (ed_Logs: "string list") (ed_InnerTxns: "SignedTxnWithAD list")

abbreviation sad_Txn :: "SignedTxnWithAD \<Rightarrow> Txn" where
  "sad_Txn t \<equiv> stx_Txn (sad_SignedTxn t)"

abbreviation sad_EvalDelta :: "SignedTxnWithAD \<Rightarrow> EvalDeltaAD" where
  "sad_EvalDelta t \<equiv> ad_EvalDelta (sad_ApplyData t)"

abbreviation sad_Inner :: "SignedTxnWithAD \<Rightarrow> SignedTxnWithAD list" where
  "sad_Inner t \<equiv> ed_InnerTxns (sad_EvalDelta t)"

lemma size_sad_Inner [termination_simp]: "size_list size (sad_Inner t) < size t"
  by (cases t; cases "sad_ApplyData t"; cases "sad_EvalDelta t") auto

lemma size_inner_mem: "t' \<in> set (sad_Inner t) \<Longrightarrow> size t' < size t"
  using size_sad_Inner[of t] size_list_estimation'[of t' "sad_Inner t" "size t'" size] by auto

text \<open>Induction over the tree of inner transactions.\<close>

lemma stxn_induct [case_names Inner]:
  assumes "\<And>t. (\<And>t'. t' \<in> set (sad_Inner t) \<Longrightarrow> P t') \<Longrightarrow> P t"
  shows "P t"
  using assms by (induction t rule: measure_induct_rule[of size]) (blast intro: size_inner_mem)

section \<open>Blocks\<close>

record SignedTxnInBlock =
  sib_Txn :: SignedTxnWithAD
  sib_HasGenesisID :: bool
  sib_HasGenesisHash :: bool

record BlockHeader =
  bh_Round :: u64
  bh_Branch :: "byte list"
  bh_Seed :: "byte list"
  bh_NativeSha512_256Commitment :: "byte list"
  bh_TimeStamp :: int
  bh_GenesisID :: string
  bh_GenesisHash :: "byte list"
  bh_FeeSink :: Address
  bh_RewardsPool :: Address
  bh_RewardsLevel :: u64
  bh_RewardsRate :: u64
  bh_RewardsResidue :: u64
  bh_RewardsRecalculationRound :: u64
  bh_CurrentProtocol :: string
  bh_NextProtocol :: string
  bh_NextProtocolApprovals :: u64
  bh_NextProtocolVoteBefore :: u64
  bh_NextProtocolSwitchOn :: u64
  bh_UpgradePropose :: string
  bh_UpgradeDelay :: u64
  bh_UpgradeApprove :: bool
  bh_TxnCounter :: u64

record bookkeeping_Block =
  blk_BlockHeader :: BlockHeader
  blk_Payset :: "SignedTxnInBlock list"

text \<open>\<open>rpcs.EncodedBlockCert\<close>; the certificate is carried but never inspected.\<close>

record EncodedBlockCert =
  ebc_Block :: bookkeeping_Block
  ebc_Certificate :: "byte list"

section \<open>Functions of the library\<close>

record go_algorand =
  ga_AddrString :: "Address \<Rightarrow> string"
  ga_AddrIsZero :: "Address \<Rightarrow> bool"
  ga_MsigBlank :: "MultisigSig \<Rightarrow> bool"
  ga_LsigBlank :: "LogicSig \<Rightarrow> bool"
  ga_DecodeSignedTxn :: "BlockHeader \<Rightarrow> SignedTxnInBlock \<Rightarrow> goerror + (SignedTxn \<times> ApplyData)"
  ga_TxnID :: "Txn \<Rightarrow> string"

end
