(* ===== verification/Pointers.thy ===== *)
theory Pointers
  imports Algorand_Types
begin

text \<open>
  The pointer wrappers of \<open>internal/utils/pointers.go\<close>. A pointer to a fresh copy of a value
  is \<open>Some\<close> of the value and a nil pointer is \<open>None\<close>; the dereferencing wrappers
  and \<open>timePtr\<close>, \<open>strArrayPtr\<close> and \<open>addrSlice\<close> are there too, although the
  conversion does not call them. The lemmas give the one fact every caller relies on:
  which values become nil, and that a non-nil pointer keeps the value.
\<close>

section \<open>Safe dereference wrappers\<close>

definition uintOrDefault :: "u64 option \<Rightarrow> u64" where
  "uintOrDefault x = (case x of Some v \<Rightarrow> v | None \<Rightarrow> 0)"

definition uintOrDefaultValue :: "u64 option \<Rightarrow> u64 \<Rightarrow> u64" where
  "uintOrDefaultValue x d = (case x of Some v \<Rightarrow> v | None \<Rightarrow> d)"

definition strOrDefault :: "string option \<Rightarrow> string" where
  "strOrDefault str = (case str of Some v \<Rightarrow> v | None \<Rightarrow> '''')"

definition boolOrDefault :: "bool option \<Rightarrow> bool" where
  "boolOrDefault b = (case b of Some v \<Rightarrow> v | None \<Rightarrow> False)"

section \<open>Safe pointer wrappers\<close>

definition uint64Ptr :: "u64 \<Rightarrow> u64 option" where
  "uint64Ptr x = Some x"

definition uint64PtrOrNil :: "u64 \<Rightarrow> u64 option" where
  "uint64PtrOrNil x = (if x = 0 then None else Some x)"

definition byteSlicePtr :: "byte list \<Rightarrow> byte list option" where
  "byteSlicePtr x = (if length x = 0 then None else Some x)"

text \<open>The loop looks for the first non-zero byte and then copies the whole slice.\<close>

fun omit_zero_loop :: "byte list \<Rightarrow> byte list \<Rightarrow> byte list option" where
  "omit_zero_loop x [] = None"
| "omit_zero_loop x (v # vs) = (if v \<noteq> 0 then Some x else omit_zero_loop x vs)"

definition byteSliceOmitZeroPtr :: "byte list \<Rightarrow> byte list option" where
  "byteSliceOmitZeroPtr x = omit_zero_loop x x"

text \<open>\<open>time.Time.IsZero\<close>: the zero time is 1 January of year 1, an instant of its own.\<close>

definition timePtr :: "instant \<Rightarrow> instant \<Rightarrow> instant option" where
  "timePtr zero_time x = (if x = zero_time then None else Some x)"

definition addrPtr :: "go_algorand \<Rightarrow> Address \<Rightarrow> string option" where
  "addrPtr ga x = (if ga_AddrIsZero ga x then None else Some (ga_AddrString ga x))"

definition strPtr :: "string \<Rightarrow> string option" where
  "strPtr x = (if length x = 0 then None else Some x)"

definition boolPtr :: "bool \<Rightarrow> bool option" where
  "boolPtr x = Some x"

definition strArrayPtr :: "string list \<Rightarrow> string list option" where
  "strArrayPtr x = (if length x = 0 then None else Some x)"

definition addrSlice :: "Address \<Rightarrow> byte list" where
  "addrSlice x = x"

section \<open>Lemmas\<close>

lemma omit_zero_loop_eq: "omit_zero_loop x vs = (if \<forall>v \<in> set vs. v = 0 then None else Some x)"
  by (induction vs) auto

lemma byteSliceOmitZeroPtr_eq:
  "byteSliceOmitZeroPtr x = (if \<forall>v \<in> set x. v = 0 then None else Some x)"
  by (simp add: byteSliceOmitZeroPtr_def omit_zero_loop_eq)

text \<open>A string or integer survives the trip through a pointer that omits the zero value.\<close>

lemma strOrDefault_strPtr: "strOrDefault (strPtr x) = x"
  by (simp add: strOrDefault_def strPtr_def)

lemma uintOrDefault_uint64PtrOrNil: "uintOrDefault (uint64PtrOrNil x) = x"
  by (simp add: uintOrDefault_def uint64PtrOrNil_def)

lemmas ptr_defs = uint64Ptr_def boolPtr_def

end
