(* ===== verification/Indexer_Block.thy ===== *)
theory Indexer_Block
  imports AVN_Prelude
begin

text \<open>
  The indexer's block format (\<open>internal/utils/indexer_block.go\<close>), the part that the
  conversion fills in. A pointer field is an \<open>option\<close>: \<open>None\<close> is omitted from the
  JSON. \<open>Transaction\<close> contains its inner transactions, so it is a datatype of a record of
  the flat fields and the list of inner transactions.
\<close>

record StateSchema =
  sc_NumByteSlice :: u64
  sc_NumUint :: u64

record EvalDelta =
  evd_Action :: u64
  evd_Bytes :: "string option"
  evd_Uint :: "u64 option"

record EvalDeltaKeyValue =
  kv_Key :: string
  kv_Value :: EvalDelta

type_synonym StateDelta = "EvalDeltaKeyValue list"

record AccountStateDelta =
  asd_Address :: string
  asd_Delta :: StateDelta

type_synonym OnCompletion = string

record AssetParams =
  apar_Clawback :: "string option"
  apar_Creator :: string
  apar_Decimals :: u64
  apar_DefaultFrozen :: "bool option"
  apar_Freeze :: "string option"
  apar_Manager :: "string option"
  apar_MetadataHash :: "byte list option"
  apar_Name :: "string option"
  apar_NameB64 :: "byte list option"
  apar_Reserve :: "string option"
  apar_Total :: u64
  apar_UnitName :: "string option"
  apar_UnitNameB64 :: "byte list option"
  apar_Url :: "string option"
  apar_UrlB64 :: "byte list option"

record TransactionApplication =
  tap_Accounts :: "string list option"
  tap_ApplicationArgs :: "string list option"
  tap_ApplicationId :: u64
  tap_ApprovalProgram :: "byte list option"
  tap_ClearStateProgram :: "byte list option"
  tap_ExtraProgramPages :: "u64 option"
  tap_ForeignApps :: "u64 list option"
  tap_ForeignAssets :: "u64 list option"
  tap_GlobalStateSchema :: "StateSchema option"
  tap_LocalStateSchema :: "StateSchema option"
  tap_OnCompletion :: OnCompletion

record TransactionAssetConfig =
  tac_AssetId :: "u64 option"
  tac_Params :: "AssetParams option"

record TransactionAssetFreeze =
  taf_Address :: string
  taf_AssetId :: u64
  taf_NewFreezeStatus :: bool

record TransactionAssetTransfer =
  tat_Amount :: u64
  tat_AssetId :: u64
  tat_CloseAmount :: "u64 option"
  tat_CloseTo :: "string option"
  tat_Receiver :: string
  tat_Sender :: "string option"

record TransactionKeyreg =
  tkr_NonParticipation :: "bool option"
  tkr_SelectionParticipationKey :: "byte list option"
  tkr_StateProofKey :: "byte list option"
  tkr_VoteFirstValid :: "u64 option"
  tkr_VoteKeyDilution :: "u64 option"
  tkr_VoteLastValid :: "u64 option"
  tkr_VoteParticipationKey :: "byte list option"

record TransactionPayment =
  tpy_Amount :: u64
  tpy_CloseAmount :: "u64 option"
  tpy_CloseRemainderTo :: "string option"
  tpy_Receiver :: string

record TransactionSignatureMultisigSubsignature =
  tss_PublicKey :: "byte list option"
  tss_Signature :: "byte list option"

record TransactionSignatureMultisig =
  tsm_Subsignature :: "TransactionSignatureMultisigSubsignature list option"
  tsm_Threshold :: "u64 option"
  tsm_Version :: "u64 option"

record TransactionSignatureLogicsig =
  tsl_Args :: "string list option"
  tsl_Logic :: "byte list"
  tsl_MultisigSignature :: "TransactionSignatureMultisig option"
  tsl_Signature :: "byte list option"

record TransactionSignature =
  tsg_Logicsig :: "TransactionSignatureLogicsig option"
  tsg_Multisig :: "TransactionSignatureMultisig option"
  tsg_Sig :: "byte list option"

record TransactionFields =
  tx_ApplicationTransaction :: "TransactionApplication option"
  tx_AssetConfigTransaction :: "TransactionAssetConfig option"
  tx_AssetFreezeTransaction :: "TransactionAssetFreeze option"
  tx_AssetTransferTransaction :: "TransactionAssetTransfer option"
  tx_AuthAddr :: "string option"
  tx_CloseRewards :: "u64 option"
  tx_ClosingAmount :: "u64 option"
  tx_ConfirmedRound :: "u64 option"
  tx_CreatedApplicationIndex :: "u64 option"
  tx_CreatedAssetIndex :: "u64 option"
  tx_Fee :: u64
  tx_FirstValid :: u64
  tx_GenesisHash :: "byte list option"
  tx_GenesisId :: "string option"
  tx_GlobalStateDelta :: "StateDelta option"
  tx_Group :: "byte list option"
  tx_Id :: "string option"
  tx_IntraRoundOffset :: "u64 option"
  tx_KeyregTransaction :: "TransactionKeyreg option"
  tx_LastValid :: u64
  tx_Lease :: "byte list option"
  tx_LocalStateDelta :: "AccountStateDelta list option"
  tx_Logs :: "byte list list option"
  tx_Note :: "byte list option"
  tx_PaymentTransaction :: "TransactionPayment option"
  tx_ReceiverRewards :: "u64 option"
  tx_RekeyTo :: "string option"
  tx_RoundTime :: "u64 option"
  tx_Sender :: string
  tx_SenderRewards :: "u64 option"
  tx_Signature :: "TransactionSignature option"
  tx_TxType :: string

datatype Transaction =
  Transaction (tx_fields: TransactionFields) (tx_InnerTxns: "Transaction list option")

record BlockRewards =
  brw_FeeSink :: string
  brw_RewardsCalculationRound :: u64
  brw_RewardsLevel :: u64
  brw_RewardsPool :: string
  brw_RewardsRate :: u64
  brw_RewardsResidue :: u64

record BlockUpgradeState =
  bus_CurrentProtocol :: string
  bus_NextProtocol :: "string option"
  bus_NextProtocolApprovals :: "u64 option"
  bus_NextProtocolSwitchOn :: "u64 option"
  bus_NextProtocolVoteBefore :: "u64 option"

record BlockUpgradeVote =
  buv_UpgradeApprove :: "bool option"
  buv_UpgradeDelay :: "u64 option"
  buv_UpgradePropose :: "string option"

record BlockResponse =
  br_GenesisHash :: "byte list"
  br_GenesisId :: string
  br_PreviousBlockHash :: "byte list"
  br_Rewards :: "BlockRewards option"
  br_Round :: u64
  br_Seed :: "byte list"
  br_Timestamp :: u64
  br_Transactions :: "Transaction list option"
  br_TransactionsRoot :: "byte list"
  br_TxnCounter :: "u64 option"
  br_UpgradeState :: "BlockUpgradeState option"
  br_UpgradeVote :: "BlockUpgradeVote option"

end
