(* ===== verification/Convert_Stxn.thy ===== *)
theory Convert_Stxn
  imports Go_Strings Pointers Indexer_Block
begin

text \<open>
  \<open>internal/utils/convert_stxn.go\<close> and \<open>PrintableUTF8OrEmpty\<close> of
  \<open>internal/utils/utils.go\<close>: one signed transaction with its apply data, converted to the
  indexer's format together with its inner transactions. The running \<open>intra\<close> counter is
  a \<open>uint\<close> of 64 bits. The only run-time failure is the index
  \<open>stxn.Txn.Accounts[k-1]\<close> for a key of \<open>LocalDeltas\<close>, a panic of the model.

  The lemmas show: the counter advances by the number of transactions in the tree, when the
  conversion panics, that the order in which Go iterates over the maps cannot be observed,
  that state deltas are converted without loss, and the shape of the result for each type
  of transaction.
\<close>

section \<open>PrintableUTF8OrEmpty\<close>

fun printable_loop :: "(nat \<Rightarrow> bool) \<Rightarrow> string \<Rightarrow> nat list \<Rightarrow> string" where
  "printable_loop IsPrint inp [] = inp"
| "printable_loop IsPrint inp (c # cs) =
     (if c = RuneError \<or> \<not> IsPrint c then '''' else printable_loop IsPrint inp cs)"

definition PrintableUTF8OrEmpty :: "(nat \<Rightarrow> bool) \<Rightarrow> string \<Rightarrow> string" where
  "PrintableUTF8OrEmpty IsPrint inp = printable_loop IsPrint inp (range_runes inp)"

section \<open>State deltas\<close>

fun onCompletionToTransactionOnCompletion :: "OnCompletionOC \<Rightarrow> OnCompletion" where
  "onCompletionToTransactionOnCompletion NoOpOC = ''noop''"
| "onCompletionToTransactionOnCompletion OptInOC = ''optin''"
| "onCompletionToTransactionOnCompletion CloseOutOC = ''closeout''"
| "onCompletionToTransactionOnCompletion ClearStateOC = ''clear''"
| "onCompletionToTransactionOnCompletion UpdateApplicationOC = ''update''"
| "onCompletionToTransactionOnCompletion DeleteApplicationOC = ''delete''"
| "onCompletionToTransactionOnCompletion (OtherOC _) = ''unknown''"

text \<open>A map read \<open>d[k]\<close> gives the zero value for a missing key.\<close>

definition zero_ValueDelta :: ValueDelta where
  "zero_ValueDelta = \<lparr>vd_Action = 0, vd_Bytes = '''', vd_Uint = 0\<rparr>"

definition delta_get :: "basics_StateDelta \<Rightarrow> string \<Rightarrow> ValueDelta" where
  "delta_get d k = (case map_of d k of Some v \<Rightarrow> v | None \<Rightarrow> zero_ValueDelta)"

definition delta_entry :: "basics_StateDelta \<Rightarrow> string \<Rightarrow> EvalDeltaKeyValue" where
  "delta_entry d k =
     (let v = delta_get d k in
      \<lparr>kv_Key = EncodeToString (bytes_of k),
       kv_Value = \<lparr>evd_Action = vd_Action v,
                   evd_Bytes = strPtr (EncodeToString (bytes_of (vd_Bytes v))),
                   evd_Uint = uint64Ptr (vd_Uint v)\<rparr>\<rparr>)"

definition stateDeltaToStateDelta :: "basics_StateDelta \<Rightarrow> StateDelta option" where
  "stateDeltaToStateDelta d =
     (if length d = 0 then None
      else let keys = sort (map fst d) in Some (map (delta_entry d) keys))"

section \<open>The transaction types\<close>

record rowData =
  rd_Round :: u64
  rd_RoundTime :: int
  rd_Intra :: u64
  rd_AssetID :: u64
  rd_AssetCloseAmount :: u64

text \<open>The parameters of the conversion: the Algorand library and \<open>unicode.IsPrint\<close>.\<close>

record conv_env =
  ce_ga :: go_algorand
  ce_IsPrint :: "nat \<Rightarrow> bool"

definition conv_payment :: "conv_env \<Rightarrow> SignedTxnWithAD \<Rightarrow> TransactionPayment" where
  "conv_payment ce stxn =
     (let p = txn_Payment (sad_Txn stxn) in
      \<lparr>tpy_Amount = pf_Amount p,
       tpy_CloseAmount = uint64Ptr (ad_ClosingAmount (sad_ApplyData stxn)),
       tpy_CloseRemainderTo = addrPtr (ce_ga ce) (pf_CloseRemainderTo p),
       tpy_Receiver = ga_AddrString (ce_ga ce) (pf_Receiver p)\<rparr>)"

definition conv_keyreg :: "SignedTxnWithAD \<Rightarrow> TransactionKeyreg" where
  "conv_keyreg stxn =
     (let k = txn_Keyreg (sad_Txn stxn) in
      \<lparr>tkr_NonParticipation = boolPtr (kr_Nonparticipation k),
       tkr_SelectionParticipationKey = byteSliceOmitZeroPtr (kr_SelectionPK k),
       tkr_StateProofKey = byteSliceOmitZeroPtr (kr_StateProofPK k),
       tkr_VoteFirstValid = uint64Ptr (kr_VoteFirst k),
       tkr_VoteKeyDilution = uint64Ptr (kr_VoteKeyDilution k),
       tkr_VoteLastValid = uint64Ptr (kr_VoteLast k),
       tkr_VoteParticipationKey = byteSliceOmitZeroPtr (kr_VotePK k)\<rparr>)"

definition conv_asset_config :: "conv_env \<Rightarrow> SignedTxnWithAD \<Rightarrow> TransactionAssetConfig" where
  "conv_asset_config ce stxn =
     (let c = txn_AssetConfig (sad_Txn stxn); p = ac_AssetParams c; ga = ce_ga ce;
          printable = PrintableUTF8OrEmpty (ce_IsPrint ce);
          assetParams =
            \<lparr>apar_Clawback = addrPtr ga (ba_Clawback p),
             apar_Creator = ga_AddrString ga (th_Sender (txn_Header (sad_Txn stxn))),
             apar_Decimals = ucast (ba_Decimals p),
             apar_DefaultFrozen = boolPtr (ba_DefaultFrozen p),
             apar_Freeze = addrPtr ga (ba_Freeze p),
             apar_Manager = addrPtr ga (ba_Manager p),
             apar_MetadataHash = byteSliceOmitZeroPtr (ba_MetadataHash p),
             apar_Name = strPtr (printable (ba_AssetName p)),
             apar_NameB64 = byteSlicePtr (bytes_of (ba_AssetName p)),
             apar_Reserve = addrPtr ga (ba_Reserve p),
             apar_Total = ba_Total p,
             apar_UnitName = strPtr (printable (ba_UnitName p)),
             apar_UnitNameB64 = byteSlicePtr (bytes_of (ba_UnitName p)),
             apar_Url = strPtr (printable (ba_URL p)),
             apar_UrlB64 = byteSlicePtr (bytes_of (ba_URL p))\<rparr>
      in \<lparr>tac_AssetId = uint64Ptr (ac_ConfigAsset c), tac_Params = Some assetParams\<rparr>)"

definition conv_asset_transfer :: "conv_env \<Rightarrow> SignedTxnWithAD \<Rightarrow> rowData \<Rightarrow> TransactionAssetTransfer" where
  "conv_asset_transfer ce stxn extra =
     (let t = txn_AssetTransfer (sad_Txn stxn); ga = ce_ga ce in
      \<lparr>tat_Amount = at_AssetAmount t,
       tat_AssetId = at_XferAsset t,
       tat_CloseAmount = uint64Ptr (rd_AssetCloseAmount extra),
       tat_CloseTo = addrPtr ga (at_AssetCloseTo t),
       tat_Receiver = ga_AddrString ga (at_AssetReceiver t),
       tat_Sender = addrPtr ga (at_AssetSender t)\<rparr>)"

definition conv_asset_freeze :: "conv_env \<Rightarrow> SignedTxnWithAD \<Rightarrow> TransactionAssetFreeze" where
  "conv_asset_freeze ce stxn =
     (let f = txn_AssetFreeze (sad_Txn stxn) in
      \<lparr>taf_Address = ga_AddrString (ce_ga ce) (af_FreezeAccount f),
       taf_AssetId = af_FreezeAsset f,
       taf_NewFreezeStatus = af_AssetFrozen f\<rparr>)"

definition conv_schema :: "basics_StateSchema \<Rightarrow> StateSchema" where
  "conv_schema s = \<lparr>sc_NumByteSlice = ss_NumByteSlice s, sc_NumUint = ss_NumUint s\<rparr>"

definition conv_application :: "conv_env \<Rightarrow> SignedTxnWithAD \<Rightarrow> TransactionApplication" where
  "conv_application ce stxn =
     (let a = txn_ApplicationCall (sad_Txn stxn);
          args = map EncodeToString (ap_ApplicationArgs a);
          accts = map (ga_AddrString (ce_ga ce)) (ap_Accounts a)
      in \<lparr>tap_Accounts = Some accts,
          tap_ApplicationArgs = Some args,
          tap_ApplicationId = ap_ApplicationID a,
          tap_ApprovalProgram = byteSliceOmitZeroPtr (ap_ApprovalProgram a),
          tap_ClearStateProgram = byteSliceOmitZeroPtr (ap_ClearStateProgram a),
          tap_ExtraProgramPages = uint64PtrOrNil (ucast (ap_ExtraProgramPages a)),
          tap_ForeignApps = Some (ap_ForeignApps a),
          tap_ForeignAssets = Some (ap_ForeignAssets a),
          tap_GlobalStateSchema = Some (conv_schema (ap_GlobalStateSchema a)),
          tap_LocalStateSchema = Some (conv_schema (ap_LocalStateSchema a)),
          tap_OnCompletion = onCompletionToTransactionOnCompletion (ap_OnCompletion a)\<rparr>)"

section \<open>Local state deltas and logs\<close>

text \<open>
  The pairs of key and address that the loop over the map collects; the index is
  \<open>k-1\<close> as an unsigned number, and Go panics when it is out of range.
\<close>

definition local_key :: "SignedTxnWithAD \<Rightarrow> u64 \<Rightarrow> (u64 \<times> Address) go" where
  "local_key stxn k =
     (if k = 0 then Ret (0, th_Sender (txn_Header (sad_Txn stxn)))
      else let accts = ap_Accounts (txn_ApplicationCall (sad_Txn stxn)); i = unat (k - 1)
           in if i < length accts then Ret (k, accts ! i) else Panic IndexOutOfRange)"

definition local_get :: "(u64 \<times> basics_StateDelta) list \<Rightarrow> u64 \<Rightarrow> basics_StateDelta" where
  "local_get m k = (case map_of m k of Some d \<Rightarrow> d | None \<Rightarrow> [])"

text \<open>The second loop: keys in order, deltas that convert to nil left out.\<close>

fun account_deltas ::
  "conv_env \<Rightarrow> (u64 \<times> basics_StateDelta) list \<Rightarrow> (u64 \<times> Address) list \<Rightarrow> AccountStateDelta list" where
  "account_deltas ce m [] = []"
| "account_deltas ce m ((k, addr) # ks) =
     (case stateDeltaToStateDelta (local_get m k) of
        None \<Rightarrow> account_deltas ce m ks
      | Some delta \<Rightarrow>
          \<lparr>asd_Address = ga_AddrString (ce_ga ce) addr, asd_Delta = delta\<rparr> # account_deltas ce m ks)"

definition localStateDelta :: "conv_env \<Rightarrow> SignedTxnWithAD \<Rightarrow> AccountStateDelta list option go" where
  "localStateDelta ce stxn =
     (let m = ed_LocalDeltas (sad_EvalDelta stxn) in
      if length m = 0 then Ret None
      else go_bind (go_map (local_key stxn) (map fst m)) (\<lambda>keys.
             Ret (Some (account_deltas ce m (sort_key fst keys)))))"

definition conv_logs :: "SignedTxnWithAD \<Rightarrow> byte list list option" where
  "conv_logs stxn =
     (let lg = ed_Logs (sad_EvalDelta stxn) in if length lg = 0 then None else Some (map bytes_of lg))"

section \<open>The conversion\<close>

text \<open>The row data of an inner transaction: \<open>Intra\<close> stays that of the root.\<close>

definition inner_extra :: "SignedTxnWithAD \<Rightarrow> rowData \<Rightarrow> rowData" where
  "inner_extra t extra =
     extra\<lparr>rd_AssetID :=
             (if txn_Type (sad_Txn t) = ApplicationCallTx then ad_ApplicationID (sad_ApplyData t)
              else if txn_Type (sad_Txn t) = AssetConfigTx then ad_ConfigAsset (sad_ApplyData t)
              else 0),
           rd_AssetCloseAmount := ad_AssetClosingAmount (sad_ApplyData t)\<rparr>"

text \<open>The \<open>switch\<close> on the transaction type, and the flat fields of the result.\<close>

definition transaction_fields ::
  "conv_env \<Rightarrow> SignedTxnWithAD \<Rightarrow> rowData \<Rightarrow> AccountStateDelta list option \<Rightarrow> TransactionFields" where
  "transaction_fields ce stxn extra lsd =
     (let ty = txn_Type (sad_Txn stxn); h = txn_Header (sad_Txn stxn); ad = sad_ApplyData stxn;
          ga = ce_ga ce;
          application = (if ty = ApplicationCallTx then Some (conv_application ce stxn) else None);
          assetConfig = (if ty = AssetConfigTx then Some (conv_asset_config ce stxn) else None)
      in \<lparr>tx_ApplicationTransaction = application,
          tx_AssetConfigTransaction = assetConfig,
          tx_AssetFreezeTransaction = (if ty = AssetFreezeTx then Some (conv_asset_freeze ce stxn) else None),
          tx_AssetTransferTransaction =
            (if ty = AssetTransferTx then Some (conv_asset_transfer ce stxn extra) else None),
          tx_AuthAddr = None,
          tx_CloseRewards = uint64Ptr (ad_CloseRewards ad),
          tx_ClosingAmount = uint64Ptr (ad_ClosingAmount ad),
          tx_ConfirmedRound = uint64Ptr (rd_Round extra),
          tx_CreatedApplicationIndex =
            (if ty = ApplicationCallTx then
               (case application of
                  Some a \<Rightarrow> if tap_ApplicationId a = 0 \<and> rd_AssetID extra > 0
                            then uint64Ptr (rd_AssetID extra) else None
                | None \<Rightarrow> None)
             else None),
          tx_CreatedAssetIndex =
            (if ty = AssetConfigTx then
               (case assetConfig of
                  Some c \<Rightarrow> if tac_AssetId c = Some 0 then uint64Ptr (rd_AssetID extra) else None
                | None \<Rightarrow> None)
             else None),
          tx_Fee = th_Fee h,
          tx_FirstValid = th_FirstValid h,
          tx_GenesisHash = byteSliceOmitZeroPtr (th_GenesisHash h),
          tx_GenesisId = strPtr (th_GenesisID h),
          tx_GlobalStateDelta = stateDeltaToStateDelta (ed_GlobalDelta (sad_EvalDelta stxn)),
          tx_Group = byteSliceOmitZeroPtr (th_Group h),
          tx_Id = None,
          tx_IntraRoundOffset = uint64Ptr (rd_Intra extra),
          tx_KeyregTransaction = (if ty = KeyRegistrationTx then Some (conv_keyreg stxn) else None),
          tx_LastValid = th_LastValid h,
          tx_Lease = byteSliceOmitZeroPtr (th_Lease h),
          tx_LocalStateDelta = lsd,
          tx_Logs = conv_logs stxn,
          tx_Note = byteSliceOmitZeroPtr (th_Note h),
          tx_PaymentTransaction = (if ty = PaymentTx then Some (conv_payment ce stxn) else None),
          tx_ReceiverRewards = uint64Ptr (ad_ReceiverRewards ad),
          tx_RekeyTo = addrPtr ga (th_RekeyTo h),
          tx_RoundTime = uint64Ptr (word_of_int (rd_RoundTime extra)),
          tx_Sender = ga_AddrString ga (th_Sender h),
          tx_SenderRewards = uint64Ptr (ad_SenderRewards ad),
          tx_Signature = None,
          tx_TxType = ty\<rparr>)"

text \<open>
  The recursion: \<open>innerTxns\<close> is the loop over the inner transactions. The Go function
  returns a transaction, the next \<open>intra\<close> and an error; the transaction is the zero
  value when the error is not nil, so the result is a sum, and \<open>Inl (e, intra)\<close> stands for
  \<open>Transaction{}, intra, e\<close>.
\<close>

function signedTxnWithAdToTransaction ::
    "conv_env \<Rightarrow> SignedTxnWithAD \<Rightarrow> u64 \<Rightarrow> rowData \<Rightarrow> ((goerror \<times> u64) + (Transaction \<times> u64)) go"
  and innerTxns ::
    "conv_env \<Rightarrow> SignedTxnWithAD list \<Rightarrow> u64 \<Rightarrow> rowData \<Rightarrow> ((goerror \<times> u64) + (Transaction list \<times> u64)) go"
where
  "signedTxnWithAdToTransaction ce stxn intra extra =
     go_bind (localStateDelta ce stxn) (\<lambda>lsd.
       let tf = transaction_fields ce stxn extra lsd in
       if length (sad_Inner stxn) > 0 then
         go_bind (innerTxns ce (sad_Inner stxn) (intra + 1) extra) (\<lambda>r.
           case r of
             Inl e \<Rightarrow> Ret (Inl e)
           | Inr (itxns, intra') \<Rightarrow> Ret (Inr (Transaction tf (Some itxns), intra')))
       else Ret (Inr (Transaction tf None, intra + 1)))"
| "innerTxns ce [] intra extra = Ret (Inr ([], intra))"
| "innerTxns ce (t # ts) intra extra =
     go_bind (signedTxnWithAdToTransaction ce t intra (inner_extra t extra)) (\<lambda>r.
       case r of
         Inl e \<Rightarrow> Ret (Inl e)
       | Inr (itxn, nextintra) \<Rightarrow>
           go_bind (innerTxns ce ts nextintra extra) (\<lambda>r'.
             case r' of
               Inl e \<Rightarrow> Ret (Inl e)
             | Inr (itxns, intra') \<Rightarrow> Ret (Inr (itxn # itxns, intra'))))"
  by pat_completeness auto
termination
  by (relation "measure (case_sum (\<lambda>(ce, t, i, e). size t) (\<lambda>(ce, ts, i, e). size_list size ts))")
     (auto simp: size_sad_Inner)

declare signedTxnWithAdToTransaction.simps [simp del]

section \<open>Asset and application ids, signatures\<close>

definition transactionAssetID ::
  "(SignedTxnWithAD \<Rightarrow> string) \<Rightarrow> SignedTxnWithAD \<Rightarrow> u64 \<Rightarrow> bookkeeping_Block option \<Rightarrow> goerror + u64" where
  "transactionAssetID ID stxnad intra block =
     (let ty = txn_Type (sad_Txn stxnad); ad = sad_ApplyData stxnad;
          from_counter = (\<lambda>b. bh_TxnCounter (blk_BlockHeader b)
                              - of_nat (length (blk_Payset b)) + intra + 1)
      in if ty = ApplicationCallTx then
           (let a1 = ap_ApplicationID (txn_ApplicationCall (sad_Txn stxnad));
                a2 = (if a1 = 0 then ad_ApplicationID ad else a1)
            in if a2 = 0 then
                 (case block of
                    None \<Rightarrow> Inl (new_error (''transactionAssetID(): Missing ApplicationID for transaction: ''
                                            @ ID stxnad))
                  | Some b \<Rightarrow> Inr (from_counter b))
               else Inr a2)
         else if ty = AssetConfigTx then
           (let a1 = ac_ConfigAsset (txn_AssetConfig (sad_Txn stxnad));
                a2 = (if a1 = 0 then ad_ConfigAsset ad else a1)
            in if a2 = 0 then
                 (case block of
                    None \<Rightarrow> Inl (new_error (''transactionAssetID(): Missing ConfigAsset for transaction: ''
                                            @ ID stxnad))
                  | Some b \<Rightarrow> Inr (from_counter b))
               else Inr a2)
         else if ty = AssetTransferTx then Inr (at_XferAsset (txn_AssetTransfer (sad_Txn stxnad)))
         else if ty = AssetFreezeTx then Inr (af_FreezeAsset (txn_AssetFreeze (sad_Txn stxnad)))
         else Inr 0)"

text \<open>A signature equals the zero array when all its bytes are zero.\<close>

definition sigToTransactionSig :: "byte list \<Rightarrow> byte list option" where
  "sigToTransactionSig sg = (if list_all (\<lambda>b. b = 0) sg then None else Some sg)"

definition msigToTransactionMsig :: "go_algorand \<Rightarrow> MultisigSig \<Rightarrow> TransactionSignatureMultisig option" where
  "msigToTransactionMsig ga msig =
     (if ga_MsigBlank ga msig then None
      else Some \<lparr>tsm_Subsignature =
                   Some (map (\<lambda>subsig. \<lparr>tss_PublicKey = byteSliceOmitZeroPtr (ms_Key subsig),
                                        tss_Signature = sigToTransactionSig (ms_Sig subsig)\<rparr>)
                             (ms_Subsigs msig)),
                 tsm_Threshold = uint64Ptr (ucast (ms_Threshold msig)),
                 tsm_Version = uint64Ptr (ucast (ms_Version msig))\<rparr>)"

definition lsigToTransactionLsig :: "go_algorand \<Rightarrow> LogicSig \<Rightarrow> TransactionSignatureLogicsig option" where
  "lsigToTransactionLsig ga lsig =
     (if ga_LsigBlank ga lsig then None
      else Some \<lparr>tsl_Args = Some (map EncodeToString (ls_Args lsig)),
                 tsl_Logic = ls_Logic lsig,
                 tsl_MultisigSignature = msigToTransactionMsig ga (ls_Msig lsig),
                 tsl_Signature = sigToTransactionSig (ls_Sig lsig)\<rparr>)"

section \<open>Specification vocabulary\<close>

text \<open>The number of transactions in a tree, and the tree in the order of the traversal.\<close>

function txn_count :: "SignedTxnWithAD \<Rightarrow> nat" where
  "txn_count t = Suc (sum_list (map txn_count (sad_Inner t)))"
  by pat_completeness auto
termination
  by (relation "measure size") (auto simp: size_inner_mem)

declare txn_count.simps [simp del]

function preorder :: "SignedTxnWithAD \<Rightarrow> SignedTxnWithAD list" where
  "preorder t = t # concat (map preorder (sad_Inner t))"
  by pat_completeness auto
termination
  by (relation "measure size") (auto simp: size_inner_mem)

declare preorder.simps [simp del]

primrec tx_preorder :: "Transaction \<Rightarrow> TransactionFields list" where
  "tx_preorder (Transaction tf inner) =
     tf # (case map_option (\<lambda>ts. concat ts) (map_option (map tx_preorder) inner) of None \<Rightarrow> [] | Some r \<Rightarrow> r)"

text \<open>Every key of the local deltas names the sender or one of the accounts, in the whole tree.\<close>

definition local_keys_ok :: "SignedTxnWithAD \<Rightarrow> bool" where
  "local_keys_ok t \<longleftrightarrow>
     (\<forall>k \<in> fst ` set (ed_LocalDeltas (sad_EvalDelta t)).
        unat k \<le> length (ap_Accounts (txn_ApplicationCall (sad_Txn t))))"

definition stxn_ok :: "SignedTxnWithAD \<Rightarrow> bool" where
  "stxn_ok t \<longleftrightarrow> list_all local_keys_ok (preorder t)"

text \<open>
  Two association lists that represent the same Go map, and two transactions that differ
  only in the order of their maps.
\<close>

definition same_map :: "('k \<times> 'v) list \<Rightarrow> ('k \<times> 'v) list \<Rightarrow> bool" where
  "same_map m m' \<longleftrightarrow> distinct (map fst m) \<and> distinct (map fst m') \<and> map_of m = map_of m'"

definition same_local :: "(u64 \<times> basics_StateDelta) list \<Rightarrow> (u64 \<times> basics_StateDelta) list \<Rightarrow> bool" where
  "same_local m m' \<longleftrightarrow> distinct (map fst m) \<and> distinct (map fst m') \<and>
     (\<forall>k. rel_option same_map (map_of m k) (map_of m' k))"

inductive same_stxn :: "SignedTxnWithAD \<Rightarrow> SignedTxnWithAD \<Rightarrow> bool" where
  same: "same_map gd gd' \<Longrightarrow> same_local ld ld' \<Longrightarrow> list_all2 same_stxn inner inner' \<Longrightarrow>
    same_stxn
      (SignedTxnWithAD st (ApplyData ca aca sr rr cr (EvalDeltaAD gd ld lg inner) cfg app))
      (SignedTxnWithAD st (ApplyData ca aca sr rr cr (EvalDeltaAD gd' ld' lg inner') cfg app))"

text \<open>Reading a converted state delta back.\<close>

definition decode_kv :: "EvalDeltaKeyValue \<Rightarrow> string \<times> ValueDelta" where
  "decode_kv kv =
     (string_of (DecodeString (kv_Key kv)),
      \<lparr>vd_Action = evd_Action (kv_Value kv),
       vd_Bytes = string_of (DecodeString (strOrDefault (evd_Bytes (kv_Value kv)))),
       vd_Uint = uintOrDefault (evd_Uint (kv_Value kv))\<rparr>)"

section \<open>Lemmas: state deltas\<close>

lemma decode_delta_entry: "decode_kv (delta_entry d k) = (k, delta_get d k)"
  by (simp add: decode_kv_def delta_entry_def Let_def strOrDefault_strPtr uint64Ptr_def uintOrDefault_def)

lemma map_of_map_pair: "map_of (map (\<lambda>k. (k, f k)) ks) k = (if k \<in> set ks then Some (f k) else None)"
  by (induction ks) auto

lemma map_of_delta_entries:
  "map_of (map decode_kv (map (delta_entry d) (sort (map fst d)))) = map_of d"
proof
  fix k
  have "map_of (map (\<lambda>k. (k, delta_get d k)) (sort (map fst d))) k = map_of d k"
  proof (cases "map_of d k")
    case None
    then have "k \<notin> set (map fst d)" by (auto simp: map_of_eq_None_iff)
    with None show ?thesis by (auto simp: map_of_map_pair)
  next
    case (Some v)
    then have "k \<in> set (map fst d)" by (force dest: map_of_SomeD)
    with Some show ?thesis by (auto simp: map_of_map_pair delta_get_def)
  qed
  then show "map_of (map decode_kv (map (delta_entry d) (sort (map fst d)))) k = map_of d k"
    by (simp add: decode_delta_entry o_def)
qed

lemma same_map_mset: "same_map m m' \<Longrightarrow> mset m = mset m'"
  unfolding same_map_def
  by (metis distinct_map map_of_eqI map_of_inject_set mset_set_set set_map)

lemma same_map_keys: "same_map m m' \<Longrightarrow> mset (map fst m) = mset (map fst m')"
  using same_map_mset by fastforce

lemma stateDelta_same_map:
  assumes "same_map d d'"
  shows "stateDeltaToStateDelta d = stateDeltaToStateDelta d'"
proof -
  have "mset (map fst d) = mset (map fst d')" using assms by (rule same_map_keys)
  then have "sort (map fst d) = sort (map fst d')"
    by (intro sort_key_perm_unique) (auto simp: inj_on_def)
  moreover have "length d = length d'" using same_map_mset[OF assms] by (rule mset_eq_length)
  moreover have "delta_entry d = delta_entry d'"
    using assms by (auto simp: same_map_def delta_entry_def delta_get_def fun_eq_iff)
  ultimately show ?thesis by (simp add: stateDeltaToStateDelta_def Let_def)
qed

section \<open>Lemmas: local deltas\<close>

lemma local_key_ok_iff:
  "go_ok (local_key t k) \<longleftrightarrow> unat k \<le> length (ap_Accounts (txn_ApplicationCall (sad_Txn t)))"
proof (cases "k = 0")
  case False
  then have "unat (k - 1) = unat k - 1" "0 < unat k" by (simp_all add: unat_minus_one unat_gt_0)
  then have "unat (k - 1) < n \<longleftrightarrow> unat k \<le> n" for n by linarith
  with False show ?thesis by (simp add: local_key_def Let_def)
qed (simp add: local_key_def)

lemma local_key_fst: "local_key t k = Ret p \<Longrightarrow> fst p = k"
  by (auto simp: local_key_def Let_def split: if_splits)

lemma local_key_panic: "local_key t k = Panic p \<Longrightarrow> p = IndexOutOfRange"
  by (auto simp: local_key_def Let_def split: if_splits)

lemma go_map_panic:
  "(\<And>x p. f x = Panic p \<Longrightarrow> p = q) \<Longrightarrow> \<not> go_ok (go_map f xs) \<Longrightarrow> go_map f xs = Panic q"
proof (induction xs)
  case (Cons x xs)
  then show ?case by (cases "f x"; cases "go_map f xs") auto
qed simp

lemma go_map_local_key_fst: "go_map (local_key t) ks = Ret ps \<Longrightarrow> map fst ps = ks"
  by (induction ks arbitrary: ps) (auto simp: go_simps dest: local_key_fst)

lemma go_map_perm:
  assumes "mset xs = mset ys" "go_map f xs = Ret us" "go_map f ys = Ret vs"
  shows "mset us = mset vs"
proof -
  have all: "go_map f zs = Ret ws \<Longrightarrow> ws = map (\<lambda>z. ret (f z)) zs" for zs ws
    by (induction zs arbitrary: ws) (auto simp: go_simps)
  show ?thesis using assms(1) all[OF assms(2)] all[OF assms(3)]
    by (metis mset_map)
qed

lemma localStateDelta_ok_iff: "go_ok (localStateDelta ce t) \<longleftrightarrow> local_keys_ok t"
proof -
  let ?ks = "map fst (ed_LocalDeltas (sad_EvalDelta t))"
  have "go_ok (go_map (local_key t) ?ks) \<longleftrightarrow> local_keys_ok t"
    by (simp add: go_map_ok local_keys_ok_def local_key_ok_iff)
  moreover have "go_ok (localStateDelta ce t) \<longleftrightarrow> go_ok (go_map (local_key t) ?ks)"
    by (cases "go_map (local_key t) ?ks") (auto simp: localStateDelta_def Let_def)
  ultimately show ?thesis by simp
qed

lemma same_local_keys:
  assumes "same_local m m'"
  shows "mset (map fst m) = mset (map fst m')"
proof -
  have r: "rel_option same_map (map_of m k) (map_of m' k)" for k
    using assms by (simp add: same_local_def)
  have "map_of m k = None \<longleftrightarrow> map_of m' k = None" for k
    using r[of k] by (cases rule: option.rel_cases) simp_all
  then have "set (map fst m) = set (map fst m')"
    by (metis (no_types, lifting) map_of_eq_None_iff set_map subsetI subset_antisym)
  moreover have "distinct (map fst m)" "distinct (map fst m')" using assms by (simp_all add: same_local_def)
  ultimately show ?thesis by (metis set_eq_iff_mset_eq_distinct)
qed

lemma account_deltas_cong:
  assumes "\<And>k. stateDeltaToStateDelta (local_get m k) = stateDeltaToStateDelta (local_get m' k)"
  shows "account_deltas ce m ks = account_deltas ce m' ks"
  by (induction ks) (auto simp: assms split: option.splits)

lemma local_get_same:
  assumes "same_local m m'"
  shows "stateDeltaToStateDelta (local_get m k) = stateDeltaToStateDelta (local_get m' k)"
proof -
  have r: "rel_option same_map (map_of m k) (map_of m' k)" using assms by (simp add: same_local_def)
  then show ?thesis
    by (cases rule: option.rel_cases) (auto simp: local_get_def intro: stateDelta_same_map)
qed

text \<open>The local deltas do not depend on the iteration order of the map, panics included.\<close>

lemma localStateDelta_cong:
  assumes eq: "sad_SignedTxn t = sad_SignedTxn t'"
    and same: "same_local (ed_LocalDeltas (sad_EvalDelta t)) (ed_LocalDeltas (sad_EvalDelta t'))"
  shows "localStateDelta ce t = localStateDelta ce t'"
proof -
  let ?m = "ed_LocalDeltas (sad_EvalDelta t)" and ?m' = "ed_LocalDeltas (sad_EvalDelta t')"
  have keys: "mset (map fst ?m) = mset (map fst ?m')" using same by (rule same_local_keys)
  then have kset: "set (map fst ?m) = set (map fst ?m')" by (metis set_mset_mset)
  have len: "length ?m = length ?m'" using mset_eq_length[OF keys] by simp
  then have nil: "?m = [] \<longleftrightarrow> ?m' = []" by auto
  have lk: "local_key t = local_key t'" by (simp add: local_key_def eq fun_eq_iff)
  show ?thesis
  proof (cases "go_ok (go_map (local_key t) (map fst ?m))")
    case True
    then have "go_ok (go_map (local_key t) (map fst ?m'))" unfolding go_map_ok kset .
    with True obtain us vs where us: "go_map (local_key t) (map fst ?m) = Ret us"
      and vs: "go_map (local_key t) (map fst ?m') = Ret vs" by (auto simp: go_ok_iff)
    have "distinct (map fst us)"
      using go_map_local_key_fst[OF us] same by (simp add: same_local_def)
    then have "inj_on fst (set us)" by (simp add: distinct_map)
    then have "sort_key fst us = sort_key fst vs"
      using go_map_perm[OF keys us vs] by (intro sort_key_perm_unique)
    then show ?thesis
      using us vs nil account_deltas_cong[OF local_get_same[OF same]]
      by (simp add: localStateDelta_def Let_def lk [symmetric])
  next
    case False
    then have "\<not> go_ok (go_map (local_key t) (map fst ?m'))" unfolding go_map_ok kset .
    moreover have "\<not> go_ok (go_map (local_key t) ks) \<Longrightarrow> go_map (local_key t) ks = Panic IndexOutOfRange"
      for ks by (rule go_map_panic) (rule local_key_panic)
    ultimately have "go_map (local_key t) (map fst ?m) = Panic IndexOutOfRange"
      "go_map (local_key t) (map fst ?m') = Panic IndexOutOfRange" using False by blast+
    then show ?thesis using nil by (simp add: localStateDelta_def Let_def lk [symmetric])
  qed
qed

section \<open>Lemmas: the conversion\<close>

lemma preorder_self: "t \<in> set (preorder t)"
  by (subst preorder.simps) simp

lemma stxn_ok_rec: "stxn_ok t \<longleftrightarrow> local_keys_ok t \<and> (\<forall>t' \<in> set (sad_Inner t). stxn_ok t')"
  unfolding stxn_ok_def by (subst preorder.simps) (auto simp: list_all_iff)

lemma txn_count_preorder: "txn_count t = length (preorder t)"
proof (induction t rule: stxn_induct)
  case (Inner t)
  then have "sum_list (map txn_count (sad_Inner t)) = sum_list (map (length \<circ> preorder) (sad_Inner t))"
    by (intro arg_cong[where f = sum_list] map_cong) simp_all
  then show ?case by (simp add: txn_count.simps[of t] preorder.simps[of t] length_concat)
qed

lemma localStateDelta_panic: "\<not> local_keys_ok t \<Longrightarrow> localStateDelta ce t = Panic IndexOutOfRange"
proof -
  let ?ks = "map fst (ed_LocalDeltas (sad_EvalDelta t))"
  assume "\<not> local_keys_ok t"
  then have "\<not> go_ok (go_map (local_key t) ?ks)"
    by (simp add: go_map_ok local_keys_ok_def local_key_ok_iff)
  then have "go_map (local_key t) ?ks = Panic IndexOutOfRange"
    by (rule go_map_panic[rotated]) (rule local_key_panic)
  then show ?thesis by (auto simp: localStateDelta_def Let_def)
qed

text \<open>
  The reference definition: the result as a function of the tree and the row data alone,
  without the running counter, the error result and the panics.
\<close>

function conv_tx :: "conv_env \<Rightarrow> SignedTxnWithAD \<Rightarrow> rowData \<Rightarrow> Transaction" where
  "conv_tx ce t extra =
     Transaction (transaction_fields ce t extra (ret (localStateDelta ce t)))
       (if sad_Inner t = [] then None
        else Some (map (\<lambda>t'. conv_tx ce t' (inner_extra t' extra)) (sad_Inner t)))"
  by pat_completeness auto
termination
  by (relation "measure (\<lambda>(ce, t, extra). size t)") (auto simp: size_inner_mem)

declare conv_tx.simps [simp del]

lemma innerTxns_eq:
  assumes "\<And>t intra extra. t \<in> set ts \<Longrightarrow>
      signedTxnWithAdToTransaction ce t intra extra =
        (if stxn_ok t then Ret (Inr (conv_tx ce t extra, intra + of_nat (txn_count t)))
         else Panic IndexOutOfRange)"
  shows "innerTxns ce ts intra extra =
    (if \<forall>t \<in> set ts. stxn_ok t
     then Ret (Inr (map (\<lambda>t. conv_tx ce t (inner_extra t extra)) ts,
                    intra + of_nat (sum_list (map txn_count ts))))
     else Panic IndexOutOfRange)"
  using assms by (induction ts arbitrary: intra) (simp_all add: add.assoc)

lemma signedTxn_eq:
  "signedTxnWithAdToTransaction ce t intra extra =
     (if stxn_ok t then Ret (Inr (conv_tx ce t extra, intra + of_nat (txn_count t)))
      else Panic IndexOutOfRange)"
proof (induction t arbitrary: intra extra rule: stxn_induct)
  case (Inner t)
  note inner = innerTxns_eq[of "sad_Inner t" ce, OF Inner.IH]
  show ?case
  proof (cases "local_keys_ok t")
    case True
    then obtain lsd where "localStateDelta ce t = Ret lsd"
      using localStateDelta_ok_iff[of ce t] by (auto simp: go_ok_iff)
    with True show ?thesis
      by (simp add: signedTxnWithAdToTransaction.simps[of ce t] inner Let_def stxn_ok_rec[of t]
          txn_count.simps[of t] conv_tx.simps[of ce t] add.assoc)
  next
    case False
    then show ?thesis
      by (simp add: signedTxnWithAdToTransaction.simps[of ce t] localStateDelta_panic stxn_ok_rec[of t])
  qed
qed

section \<open>Lemmas: the shape of the result\<close>

lemma tx_preorder_conv_tx:
  "map tx_TxType (tx_preorder (conv_tx ce t extra)) = map (\<lambda>t. txn_Type (sad_Txn t)) (preorder t)"
proof (induction t arbitrary: extra rule: stxn_induct)
  case (Inner t)
  then have "concat (map (map tx_TxType \<circ> (tx_preorder \<circ> (\<lambda>t'. conv_tx ce t' (inner_extra t' extra)))) (sad_Inner t))
      = concat (map (map (\<lambda>t. txn_Type (sad_Txn t)) \<circ> preorder) (sad_Inner t))"
    by (intro arg_cong[where f = concat] map_cong) simp_all
  then show ?case
    by (simp add: conv_tx.simps[of ce t] preorder.simps[of t] map_concat transaction_fields_def Let_def)
qed

lemma tx_preorder_const:
  assumes "\<And>t extra lsd. g extra = c \<Longrightarrow> f (transaction_fields ce t extra lsd) = c'"
    and "\<And>t extra. g (inner_extra t extra) = g extra" and "g extra = c"
  shows "\<forall>x \<in> set (tx_preorder (conv_tx ce t extra)). f x = c'"
  using assms(3)
proof (induction t arbitrary: extra rule: stxn_induct)
  case (Inner t)
  have "\<forall>x \<in> set (tx_preorder (conv_tx ce t' (inner_extra t' extra))). f x = c'"
    if "t' \<in> set (sad_Inner t)" for t'
    using that Inner.prems by (intro Inner.IH) (simp_all add: assms(2))
  with Inner.prems show ?case by (auto simp: conv_tx.simps[of ce t] assms(1))
qed

lemma inner_extra_simps [simp]:
  "rd_Round (inner_extra t extra) = rd_Round extra"
  "rd_RoundTime (inner_extra t extra) = rd_RoundTime extra"
  "rd_Intra (inner_extra t extra) = rd_Intra extra"
  by (simp_all add: inner_extra_def)

section \<open>Lemmas: iteration order\<close>

inductive_cases same_stxnE: "same_stxn t t'"

lemma same_stxn_count: "same_stxn t t' \<Longrightarrow> txn_count t = txn_count t'"
proof (induction t arbitrary: t' rule: stxn_induct)
  case (Inner t)
  from Inner.prems have l: "list_all2 same_stxn (sad_Inner t) (sad_Inner t')"
    by (auto elim!: same_stxnE)
  have "map txn_count (sad_Inner t) = map txn_count (sad_Inner t')"
    using l Inner.IH by (auto simp: list_all2_conv_all_nth list_eq_iff_nth_eq)
  then show ?case by (simp add: txn_count.simps[of t] txn_count.simps[of t'])
qed

text \<open>The conversion of the flat fields reads only what two such transactions share.\<close>

lemma transaction_fields_cong:
  assumes "sad_SignedTxn t = sad_SignedTxn t'"
    and "ad_ClosingAmount (sad_ApplyData t) = ad_ClosingAmount (sad_ApplyData t')"
    and "ad_SenderRewards (sad_ApplyData t) = ad_SenderRewards (sad_ApplyData t')"
    and "ad_ReceiverRewards (sad_ApplyData t) = ad_ReceiverRewards (sad_ApplyData t')"
    and "ad_CloseRewards (sad_ApplyData t) = ad_CloseRewards (sad_ApplyData t')"
    and "ed_Logs (sad_EvalDelta t) = ed_Logs (sad_EvalDelta t')"
    and "stateDeltaToStateDelta (ed_GlobalDelta (sad_EvalDelta t))
       = stateDeltaToStateDelta (ed_GlobalDelta (sad_EvalDelta t'))"
  shows "transaction_fields ce t extra lsd = transaction_fields ce t' extra lsd"
proof -
  have "conv_application ce t = conv_application ce t'" "conv_asset_config ce t = conv_asset_config ce t'"
    "conv_asset_freeze ce t = conv_asset_freeze ce t'" "conv_payment ce t = conv_payment ce t'"
    "conv_asset_transfer ce t extra = conv_asset_transfer ce t' extra"
    "conv_keyreg t = conv_keyreg t'" "conv_logs t = conv_logs t'"
    by (simp_all add: conv_application_def conv_asset_config_def conv_asset_freeze_def conv_payment_def
        conv_asset_transfer_def conv_keyreg_def conv_logs_def assms(1,2,6))
  then show ?thesis unfolding transaction_fields_def Let_def assms by (simp only:)
qed

lemma same_stxn_fields:
  assumes "same_stxn t t'"
  shows "transaction_fields ce t extra lsd = transaction_fields ce t' extra lsd"
    and "localStateDelta ce t = localStateDelta ce t'"
    and "inner_extra t = inner_extra t'"
    and "list_all2 same_stxn (sad_Inner t) (sad_Inner t')"
    and "local_keys_ok t \<longleftrightarrow> local_keys_ok t'"
proof -
  show tf: "transaction_fields ce t extra lsd = transaction_fields ce t' extra lsd"
    using assms by (intro transaction_fields_cong) (auto elim!: same_stxnE intro: stateDelta_same_map)
  show lsd: "localStateDelta ce t = localStateDelta ce t'"
    using assms by (intro localStateDelta_cong) (auto elim!: same_stxnE)
  show "inner_extra t = inner_extra t'" using assms by (auto elim!: same_stxnE simp: inner_extra_def)
  show "list_all2 same_stxn (sad_Inner t) (sad_Inner t')" using assms by (auto elim!: same_stxnE)
  show "local_keys_ok t \<longleftrightarrow> local_keys_ok t'"
    using lsd localStateDelta_ok_iff by metis
qed

lemma same_stxn_ok: "same_stxn t t' \<Longrightarrow> stxn_ok t \<longleftrightarrow> stxn_ok t'"
proof (induction t arbitrary: t' rule: stxn_induct)
  case (Inner t)
  have len: "length (sad_Inner t) = length (sad_Inner t')"
    and eq: "\<And>i. i < length (sad_Inner t) \<Longrightarrow> stxn_ok (sad_Inner t ! i) \<longleftrightarrow> stxn_ok (sad_Inner t' ! i)"
    using same_stxn_fields(4)[OF Inner.prems] Inner.IH by (auto simp: list_all2_conv_all_nth)
  then have "(\<forall>s \<in> set (sad_Inner t). stxn_ok s) \<longleftrightarrow> (\<forall>s \<in> set (sad_Inner t'). stxn_ok s)"
    by (simp add: all_set_conv_all_nth)
  then show ?case
    using same_stxn_fields(5)[OF Inner.prems] stxn_ok_rec[of t] stxn_ok_rec[of t'] by metis
qed

lemma same_stxn_conv_tx: "same_stxn t t' \<Longrightarrow> conv_tx ce t extra = conv_tx ce t' extra"
proof (induction t arbitrary: t' extra rule: stxn_induct)
  case (Inner t)
  note f = same_stxn_fields[OF Inner.prems]
  have len: "length (sad_Inner t) = length (sad_Inner t')" using f(4) by (rule list_all2_lengthD)
  have "map (\<lambda>s. conv_tx ce s (inner_extra s extra)) (sad_Inner t)
      = map (\<lambda>s. conv_tx ce s (inner_extra s extra)) (sad_Inner t')"
  proof (rule nth_equalityI)
    fix i assume "i < length (map (\<lambda>s. conv_tx ce s (inner_extra s extra)) (sad_Inner t))"
    then have i: "i < length (sad_Inner t)" "sad_Inner t ! i \<in> set (sad_Inner t)" by simp_all
    have s: "same_stxn (sad_Inner t ! i) (sad_Inner t' ! i)" using f(4) i by (simp add: list_all2_nthD)
    show "map (\<lambda>s. conv_tx ce s (inner_extra s extra)) (sad_Inner t) ! i
        = map (\<lambda>s. conv_tx ce s (inner_extra s extra)) (sad_Inner t') ! i"
      using i len Inner.IH[OF i(2) s] same_stxn_fields(3)[OF s] by simp
  qed (simp add: len)
  then show ?case using f(1,2) len by (auto simp: conv_tx.simps[of ce t] conv_tx.simps[of ce t'])
qed

end
