(* ===== verification/Convert_Block.thy ===== *)
theory Convert_Block
  imports Convert_Stxn
begin

text \<open>
  \<open>internal/utils/convert_block.go\<close>: a block in the indexer's format. \<open>genTransactions\<close> is
  the loop over the payset with the running \<open>intra\<close> counter, the early returns on an
  error and the panics of the indexing operations; the pure function of the lemmas
  describes what it returns for a block whose transactions all decode.
\<close>

section \<open>Definitions\<close>

definition wrap_decode_err :: "goerror \<Rightarrow> goerror" where
  "wrap_decode_err e = new_error (''decode signed txn err: '' @ err_msg e)"

definition tx_with_id_sig :: "string \<Rightarrow> TransactionSignature \<Rightarrow> Transaction \<Rightarrow> Transaction" where
  "tx_with_id_sig txid sg tx =
     Transaction ((tx_fields tx)\<lparr>tx_Id := Some txid, tx_Signature := Some sg\<rparr>) (tx_InnerTxns tx)"

definition txn_signature :: "go_algorand \<Rightarrow> SignedTxnWithAD \<Rightarrow> TransactionSignature" where
  "txn_signature ga stxnad =
     (let st = sad_SignedTxn stxnad in
      \<lparr>tsg_Logicsig = lsigToTransactionLsig ga (stx_Lsig st),
       tsg_Multisig = msigToTransactionMsig ga (stx_Msig st),
       tsg_Sig = sigToTransactionSig (stx_Sig st)\<rparr>)"

text \<open>The body and the loop of \<open>genTransactions\<close>; \<open>idx\<close> is the loop index.\<close>

fun gen_loop ::
  "conv_env \<Rightarrow> bookkeeping_Block \<Rightarrow> nat \<Rightarrow> u64 \<Rightarrow> SignedTxnInBlock list \<Rightarrow> (goerror + Transaction list) go" where
  "gen_loop ce block idx intra [] = Ret (Inr [])"
| "gen_loop ce block idx intra (stib # stibs) =
     (let ga = ce_ga ce; hdr = blk_BlockHeader block in
      case ga_DecodeSignedTxn ga hdr stib of
        Inl e \<Rightarrow> Ret (Inl (wrap_decode_err e))
      | Inr (st, ad) \<Rightarrow>
          let stxnad = SignedTxnWithAD st ad in
          (case transactionAssetID (\<lambda>s. ga_TxnID ga (sad_Txn s)) stxnad intra (Some block) of
             Inl e \<Rightarrow> Ret (Inl e)
           | Inr assetid \<Rightarrow>
               if length (blk_Payset block) \<le> idx then Panic IndexOutOfRange
               else
                 let extra = \<lparr>rd_Round = bh_Round hdr, rd_RoundTime = bh_TimeStamp hdr, rd_Intra = intra,
                              rd_AssetID = assetid,
                              rd_AssetCloseAmount =
                                ad_AssetClosingAmount (sad_ApplyData (sib_Txn (blk_Payset block ! idx)))\<rparr>;
                     sg = txn_signature ga stxnad
                 in go_bind (signedTxnWithAdToTransaction ce stxnad intra extra) (\<lambda>r.
                      case r of
                        Inl (e, _) \<Rightarrow> Ret (Inl e)
                      | Inr (tx, nextintra) \<Rightarrow>
                          let tx' = tx_with_id_sig (ga_TxnID ga (sad_Txn stxnad)) sg tx in
                          go_bind (gen_loop ce block (Suc idx) nextintra stibs) (\<lambda>rest.
                            case rest of
                              Inl e \<Rightarrow> Ret (Inl e)
                            | Inr txs \<Rightarrow> Ret (Inr (tx' # txs))))))"

definition genTransactions ::
  "conv_env \<Rightarrow> bookkeeping_Block \<Rightarrow> SignedTxnInBlock list \<Rightarrow> (goerror + Transaction list) go" where
  "genTransactions ce block modifiedTxns = gen_loop ce block 0 0 modifiedTxns"

definition block_header_response :: "conv_env \<Rightarrow> BlockHeader \<Rightarrow> BlockResponse" where
  "block_header_response ce h =
     (let ga = ce_ga ce;
          rewards = \<lparr>brw_FeeSink = ga_AddrString ga (bh_FeeSink h),
                     brw_RewardsCalculationRound = bh_RewardsRecalculationRound h,
                     brw_RewardsLevel = bh_RewardsLevel h,
                     brw_RewardsPool = ga_AddrString ga (bh_RewardsPool h),
                     brw_RewardsRate = bh_RewardsRate h,
                     brw_RewardsResidue = bh_RewardsResidue h\<rparr>;
          upgradeState = \<lparr>bus_CurrentProtocol = bh_CurrentProtocol h,
                          bus_NextProtocol = strPtr (bh_NextProtocol h),
                          bus_NextProtocolApprovals = uint64Ptr (bh_NextProtocolApprovals h),
                          bus_NextProtocolSwitchOn = uint64Ptr (bh_NextProtocolSwitchOn h),
                          bus_NextProtocolVoteBefore = uint64Ptr (bh_NextProtocolVoteBefore h)\<rparr>;
          upgradeVote = \<lparr>buv_UpgradeApprove = boolPtr (bh_UpgradeApprove h),
                         buv_UpgradeDelay = uint64Ptr (bh_UpgradeDelay h),
                         buv_UpgradePropose = strPtr (bh_UpgradePropose h)\<rparr>
      in \<lparr>br_GenesisHash = bh_GenesisHash h,
          br_GenesisId = bh_GenesisID h,
          br_PreviousBlockHash = bh_Branch h,
          br_Rewards = Some rewards,
          br_Round = bh_Round h,
          br_Seed = bh_Seed h,
          br_Timestamp = word_of_int (bh_TimeStamp h),
          br_Transactions = None,
          br_TransactionsRoot = bh_NativeSha512_256Commitment h,
          br_TxnCounter = uint64Ptr (bh_TxnCounter h),
          br_UpgradeState = Some upgradeState,
          br_UpgradeVote = Some upgradeVote\<rparr>)"

definition GenerateBlock :: "conv_env \<Rightarrow> bookkeeping_Block \<Rightarrow> (goerror + BlockResponse) go" where
  "GenerateBlock ce block =
     (let resp = block_header_response ce (blk_BlockHeader block) in
      go_bind (genTransactions ce block (blk_Payset block)) (\<lambda>r.
        case r of
          Inl e \<Rightarrow> Ret (Inl e)
        | Inr txn \<Rightarrow> Ret (Inr (resp\<lparr>br_Transactions := Some txn\<rparr>))))"

section \<open>Specification vocabulary\<close>

text \<open>The decoded transactions of a list of payset entries, or the first decoding error.\<close>

fun decode_all ::
  "go_algorand \<Rightarrow> BlockHeader \<Rightarrow> SignedTxnInBlock list \<Rightarrow> goerror + SignedTxnWithAD list" where
  "decode_all ga h [] = Inr []"
| "decode_all ga h (s # ss) =
     (case ga_DecodeSignedTxn ga h s of
        Inl e \<Rightarrow> Inl e
      | Inr (st, ad) \<Rightarrow> (case decode_all ga h ss of Inl e \<Rightarrow> Inl e | Inr ts \<Rightarrow> Inr (SignedTxnWithAD st ad # ts)))"

text \<open>The offset of the i-th transaction: the sizes of the trees before it.\<close>

definition intra_at :: "SignedTxnWithAD list \<Rightarrow> nat \<Rightarrow> nat" where
  "intra_at ts i = sum_list (map txn_count (take i ts))"

text \<open>The asset id that \<open>transactionAssetID\<close> yields when it has a block.\<close>

definition asset_id_in :: "bookkeeping_Block \<Rightarrow> u64 \<Rightarrow> SignedTxnWithAD \<Rightarrow> u64" where
  "asset_id_in block intra t =
     (case transactionAssetID (\<lambda>_. '''') t intra (Some block) of Inr a \<Rightarrow> a | Inl _ \<Rightarrow> 0)"

definition root_extra :: "bookkeeping_Block \<Rightarrow> nat \<Rightarrow> u64 \<Rightarrow> SignedTxnWithAD \<Rightarrow> rowData" where
  "root_extra block i intra t =
     \<lparr>rd_Round = bh_Round (blk_BlockHeader block), rd_RoundTime = bh_TimeStamp (blk_BlockHeader block),
      rd_Intra = intra, rd_AssetID = asset_id_in block intra t,
      rd_AssetCloseAmount = ad_AssetClosingAmount (sad_ApplyData (sib_Txn (blk_Payset block ! i)))\<rparr>"

definition root_tx :: "conv_env \<Rightarrow> bookkeeping_Block \<Rightarrow> nat \<Rightarrow> u64 \<Rightarrow> SignedTxnWithAD \<Rightarrow> Transaction" where
  "root_tx ce block i intra t =
     tx_with_id_sig (ga_TxnID (ce_ga ce) (sad_Txn t)) (txn_signature (ce_ga ce) t)
       (conv_tx ce t (root_extra block i intra t))"

section \<open>Lemmas\<close>

lemma transactionAssetID_block:
  "transactionAssetID ID t intra (Some block) = Inr (asset_id_in block intra t)"
  by (auto simp: transactionAssetID_def asset_id_in_def Let_def)

lemma decode_all_length: "decode_all ga h ss = Inr ts \<Longrightarrow> length ts = length ss"
  by (induction ss arbitrary: ts) (auto split: sum.splits prod.splits)

text \<open>
  One iteration on an entry that decodes and has resolvable local keys: the result is the
  pure conversion, and the loop goes on with the counter advanced by the tree's size.
\<close>

lemma gen_loop_step:
  assumes "ga_DecodeSignedTxn (ce_ga ce) (blk_BlockHeader block) s = Inr (st, ad)"
    and "idx < length (blk_Payset block)" and "stxn_ok (SignedTxnWithAD st ad)"
  shows "gen_loop ce block idx intra (s # ss) =
    go_bind (gen_loop ce block (Suc idx) (intra + of_nat (txn_count (SignedTxnWithAD st ad))) ss) (\<lambda>rest.
      Ret (map_sum id (\<lambda>txs. root_tx ce block idx intra (SignedTxnWithAD st ad) # txs) rest))"
proof -
  have k: "case_sum (\<lambda>e. Ret (Inl e)) (\<lambda>txs. Ret (Inr (x # txs)))
      = (\<lambda>rest. Ret (map_sum id (\<lambda>txs. x # txs) rest))" for x :: Transaction
    by (auto simp: fun_eq_iff split: sum.splits)
  show ?thesis
    using assms
    by (simp add: transactionAssetID_block signedTxn_eq Let_def root_tx_def root_extra_def k
        del: go_bind_Ret_right)
qed

lemma gen_loop_ok:
  assumes "decode_all (ce_ga ce) (blk_BlockHeader block) ss = Inr ts"
    and "list_all stxn_ok ts" and "idx + length ss \<le> length (blk_Payset block)"
  shows "gen_loop ce block idx intra ss =
    Ret (Inr (map (\<lambda>i. root_tx ce block (idx + i) (intra + of_nat (intra_at ts i)) (ts ! i)) [0..<length ts]))"
  using assms
proof (induction ss arbitrary: ts idx intra)
  case (Cons s ss)
  then obtain st ad us where dec: "ga_DecodeSignedTxn (ce_ga ce) (blk_BlockHeader block) s = Inr (st, ad)"
    and us: "decode_all (ce_ga ce) (blk_BlockHeader block) ss = Inr us"
    and ts: "ts = SignedTxnWithAD st ad # us"
    by (auto split: sum.splits)
  let ?t = "SignedTxnWithAD st ad"
  have "gen_loop ce block (Suc idx) (intra + of_nat (txn_count ?t)) ss =
    Ret (Inr (map (\<lambda>i. root_tx ce block (Suc idx + i)
      (intra + of_nat (txn_count ?t) + of_nat (intra_at us i)) (us ! i)) [0..<length us]))"
    using Cons.prems ts us by (intro Cons.IH) auto
  moreover have "[0..<length ts] = 0 # map Suc [0..<length us]"
    by (simp add: ts upt_conv_Cons map_Suc_upt del: upt_Suc)
  ultimately show ?case
    using Cons.prems dec ts by (simp add: gen_loop_step intra_at_def add.assoc o_def del: gen_loop.simps upt_Suc)
qed simp

text \<open>The first entry that does not decode ends the conversion with the wrapped error.\<close>

lemma gen_loop_decode_error:
  assumes "\<forall>x \<in> set pre. \<exists>st ad. ga_DecodeSignedTxn (ce_ga ce) (blk_BlockHeader block) x = Inr (st, ad)
      \<and> stxn_ok (SignedTxnWithAD st ad)"
    and "ga_DecodeSignedTxn (ce_ga ce) (blk_BlockHeader block) s = Inl e"
    and "idx + length pre \<le> length (blk_Payset block)"
  shows "gen_loop ce block idx intra (pre @ s # post) = Ret (Inl (wrap_decode_err e))"
  using assms
proof (induction pre arbitrary: idx intra)
  case Nil
  then show ?case by (simp add: Let_def)
next
  case (Cons x pre)
  then obtain st ad where x: "ga_DecodeSignedTxn (ce_ga ce) (blk_BlockHeader block) x = Inr (st, ad)"
    "stxn_ok (SignedTxnWithAD st ad)" by auto
  have "gen_loop ce block (Suc idx) (intra + of_nat (txn_count (SignedTxnWithAD st ad))) (pre @ s # post)
      = Ret (Inl (wrap_decode_err e))"
    using Cons.prems by (intro Cons.IH) auto
  with x Cons.prems show ?case by (simp add: gen_loop_step del: gen_loop.simps)
qed

end
