(* ===== verification/Block_Fetcher.thy ===== *)
theory Block_Fetcher
  imports Convert_Block
begin

text \<open>
  \<open>internal/blockfetcher/sync.go\<close> and \<open>EncodeJson\<close> of \<open>internal/utils/utils.go\<close>: the
  wrapped block that the caches hold, with its three encodings. The JSON encoder of
  \<open>go-codec\<close> is a parameter.
\<close>

record BlockWrap =
  bw_Round :: u64
  bw_BlockMsgPack :: "byte list"
  bw_Block :: "EncodedBlockCert option"
  bw_BlockJsonIdx :: string
  bw_BlockJsonNode :: string
  bw_Src :: string
  bw_CachedAt :: instant
  bw_Error :: "goerror option"

definition EncodeJson :: "('a \<Rightarrow> goerror + byte list) \<Rightarrow> 'a \<Rightarrow> goerror + byte list" where
  "EncodeJson enc obj =
     (case enc obj of
        Inl e \<Rightarrow> Inl (new_error (''failed to encode object: '' @ err_msg e))
      | Inr out \<Rightarrow> Inr out)"

record wrap_env =
  we_conv :: conv_env
  we_enc_block :: "EncodedBlockCert \<Rightarrow> goerror + byte list"
  we_enc_resp :: "BlockResponse \<Rightarrow> goerror + byte list"

definition MakeBlockWrap ::
  "wrap_env \<Rightarrow> instant \<Rightarrow> string \<Rightarrow> EncodedBlockCert \<Rightarrow> byte list \<Rightarrow> (goerror + BlockWrap) go" where
  "MakeBlockWrap we now src block blockRaw =
     (case EncodeJson (we_enc_block we) block of
        Inl e \<Rightarrow> Ret (Inl e)
      | Inr jBlock \<Rightarrow>
          go_bind (GenerateBlock (we_conv we) (ebc_Block block)) (\<lambda>r.
            case r of
              Inl e \<Rightarrow> Ret (Inl e)
            | Inr blockIdx \<Rightarrow>
                (case EncodeJson (we_enc_resp we) blockIdx of
                   Inl e \<Rightarrow> Ret (Inl e)
                 | Inr idxJBlock \<Rightarrow>
                     Ret (Inr \<lparr>bw_Round = bh_Round (blk_BlockHeader (ebc_Block block)),
                               bw_BlockMsgPack = blockRaw,
                               bw_Block = Some block,
                               bw_BlockJsonIdx = string_of idxJBlock,
                               bw_BlockJsonNode = string_of jBlock,
                               bw_Src = src,
                               bw_CachedAt = now,
                               bw_Error = None\<rparr>))))"

text \<open>The wrap that carries only an error (\<open>SinkError\<close> and the timeout of \<open>getBlock\<close>).\<close>

definition error_wrap :: "u64 \<Rightarrow> goerror \<Rightarrow> BlockWrap" where
  "error_wrap round err =
     \<lparr>bw_Round = round, bw_BlockMsgPack = [], bw_Block = None, bw_BlockJsonIdx = '''',
      bw_BlockJsonNode = '''', bw_Src = '''', bw_CachedAt = 0, bw_Error = Some err\<rparr>"

lemma error_wrap_simps [simp]: "bw_Round (error_wrap r e) = r" "bw_Error (error_wrap r e) = Some e"
  by (simp_all add: error_wrap_def)

lemma EncodeJson_Inr: "EncodeJson enc x = Inr y \<longleftrightarrow> enc x = Inr y"
  by (simp add: EncodeJson_def split: sum.splits)

lemma MakeBlockWrap_Inr:
  assumes "MakeBlockWrap we now src block raw = Ret (Inr bw)"
  shows "bw_Round bw = bh_Round (blk_BlockHeader (ebc_Block block)) \<and> bw_BlockMsgPack bw = raw
     \<and> bw_Block bw = Some block \<and> bw_Src bw = src \<and> bw_Error bw = None
     \<and> (\<exists>jb resp ij. we_enc_block we block = Inr jb \<and> GenerateBlock (we_conv we) (ebc_Block block) = Ret (Inr resp)
          \<and> we_enc_resp we resp = Inr ij \<and> bw_BlockJsonNode bw = string_of jb \<and> bw_BlockJsonIdx bw = string_of ij)"
proof -
  obtain jb where jb: "EncodeJson (we_enc_block we) block = Inr jb"
    using assms by (auto simp: MakeBlockWrap_def split: sum.splits)
  obtain resp where resp: "GenerateBlock (we_conv we) (ebc_Block block) = Ret (Inr resp)"
  proof (cases "GenerateBlock (we_conv we) (ebc_Block block)")
    case (Ret r)
    with assms jb that show ?thesis by (cases r) (auto simp: MakeBlockWrap_def)
  qed (use assms jb in \<open>simp add: MakeBlockWrap_def\<close>)
  obtain ij where ij: "EncodeJson (we_enc_resp we) resp = Inr ij"
    using assms jb resp by (auto simp: MakeBlockWrap_def split: sum.splits)
  with assms jb resp show ?thesis by (auto simp: MakeBlockWrap_def EncodeJson_Inr)
qed

end
