(* ===== verification/Block_Cache.thy ===== *)
theory Block_Cache
  imports LRU Block_Fetcher
begin

text \<open>
  \<open>internal/blockcache/cache.go\<close>: one block cache. Cache entries are shared by pointer between
  the LRU and the goroutines that wait for a block, and an entry can be evicted while a waiter
  still holds it, so entries live in an explicit store and the LRU maps rounds to addresses
  of it. The channels \<open>WaitFor\<close> are numbers; a channel is closed at most once, a second
  \<open>close\<close> panics. \<open>getBlock\<close> blocks, so it is split where it may be descheduled: the
  part up to the \<open>select\<close>, the part after the channel was closed, and the part after the
  context was done.

  The lemmas give the invariant of the store (every entry has a block, an error or a
  channel that is open and its own; an entry with an error has no channel), show that every operation keeps it and
  never panics, and that the operations implement a map from rounds to
  block and error, up to evictions.
\<close>

section \<open>Data\<close>

record BlockEntry =
  be_B :: "BlockWrap option"
  be_WaitFor :: "nat option"
  be_Round :: u64
  be_Error :: "goerror option"

record 'l BlockCache =
  bc_c :: 'l
  bc_last :: u64
  bc_name :: string

text \<open>The entries by address, the number of channels made so far and the closed ones.\<close>

record store =
  st_entries :: "BlockEntry list"
  st_nchan :: nat
  st_closed :: "nat list"

definition empty_store :: store where
  "empty_store = \<lparr>st_entries = [], st_nchan = 0, st_closed = []\<rparr>"

definition make_chan :: "store \<Rightarrow> nat \<times> store" where
  "make_chan h = (st_nchan h, h\<lparr>st_nchan := Suc (st_nchan h)\<rparr>)"

definition close_chan :: "nat \<Rightarrow> store \<Rightarrow> store go" where
  "close_chan ch h =
     (if ch \<in> set (st_closed h) then Panic CloseOfClosedChannel
      else Ret (h\<lparr>st_closed := ch # st_closed h\<rparr>))"

definition new_entry :: "BlockEntry \<Rightarrow> store \<Rightarrow> nat \<times> store" where
  "new_entry e h = (length (st_entries h), h\<lparr>st_entries := st_entries h @ [e]\<rparr>)"

definition entry_at :: "store \<Rightarrow> nat \<Rightarrow> BlockEntry go" where
  "entry_at h a = (if a < length (st_entries h) then Ret (st_entries h ! a) else Panic NilDeref)"

definition set_entry :: "nat \<Rightarrow> BlockEntry \<Rightarrow> store \<Rightarrow> store" where
  "set_entry a e h = h\<lparr>st_entries := (st_entries h)[a := e]\<rparr>"

section \<open>promiseBlock\<close>

text \<open>The part of \<open>promiseBlock\<close> under the lock of an entry that was found.\<close>

definition promise_found :: "nat \<Rightarrow> store \<Rightarrow> store go" where
  "promise_found a h =
     go_bind (entry_at h a) (\<lambda>bentry.
       if be_Error bentry \<noteq> None
       then let (ch, h1) = make_chan h in
            Ret (set_entry a (bentry\<lparr>be_WaitFor := Some ch, be_Error := None\<rparr>) h1)
       else Ret h)"

definition promiseBlock ::
  "'l lru \<Rightarrow> 'l BlockCache \<Rightarrow> u64 \<Rightarrow> store \<Rightarrow> (nat \<times> 'l BlockCache \<times> store) go" where
  "promiseBlock lru bc round h =
     (let (ch, h1) = make_chan h;
          (a, h2) = new_entry \<lparr>be_B = None, be_WaitFor = Some ch, be_Round = round, be_Error = None\<rparr> h1
      in case lru_PeekOrAdd lru (bc_c bc) round a of (found, c') \<Rightarrow>
           (case found of
              Some fa \<Rightarrow> go_bind (promise_found fa h2) (\<lambda>h3. Ret (fa, bc\<lparr>bc_c := c'\<rparr>, h3))
            | None \<Rightarrow> Ret (a, bc\<lparr>bc_c := c'\<rparr>, h2)))"

section \<open>addBlock\<close>

text \<open>The assignments to an entry that was found, and the notification of its waiters.\<close>

definition merge_block :: "BlockWrap \<Rightarrow> BlockEntry \<Rightarrow> BlockEntry" where
  "merge_block b fbe =
     (if be_B fbe = None then
        (if bw_Error b = None then fbe\<lparr>be_B := Some b\<rparr>
         else if be_Error fbe = None then fbe\<lparr>be_Error := bw_Error b\<rparr> else fbe)
      else fbe)"

definition deliver_found :: "nat \<Rightarrow> BlockWrap \<Rightarrow> store \<Rightarrow> store go" where
  "deliver_found a b h =
     go_bind (entry_at h a) (\<lambda>fbe0.
       let fbe = merge_block b fbe0 in
       case be_WaitFor fbe of
         Some ch \<Rightarrow>
           if be_B fbe \<noteq> None \<or> be_Error fbe \<noteq> None
           then go_bind (close_chan ch h) (\<lambda>h1. Ret (set_entry a (fbe\<lparr>be_WaitFor := None\<rparr>) h1))
           else Ret (set_entry a fbe h)
       | None \<Rightarrow> Ret (set_entry a fbe h))"

definition entry_of_block :: "BlockWrap \<Rightarrow> BlockEntry" where
  "entry_of_block b =
     \<lparr>be_B = (if bw_Error b = None then Some b else None), be_WaitFor = None,
      be_Round = bw_Round b, be_Error = bw_Error b\<rparr>"

definition addBlock ::
  "'l lru \<Rightarrow> 'l BlockCache \<Rightarrow> BlockWrap \<Rightarrow> store \<Rightarrow> ('l BlockCache \<times> store) go" where
  "addBlock lru bc b h =
     (let (a, h1) = new_entry (entry_of_block b) h in
      case lru_PeekOrAdd lru (bc_c bc) (bw_Round b) a of (found, c') \<Rightarrow>
        go_bind (case found of Some fa \<Rightarrow> deliver_found fa b h1 | None \<Rightarrow> Ret h1) (\<lambda>h2.
          Ret (bc\<lparr>bc_c := c',
                  bc_last := (if bc_last bc < bw_Round b \<and> bw_Error b = None then bw_Round b
                              else bc_last bc)\<rparr>, h2)))"

section \<open>Queries\<close>

definition IsBlockPromised :: "'l lru \<Rightarrow> 'l BlockCache \<Rightarrow> u64 \<Rightarrow> bool" where
  "IsBlockPromised lru bc round = (lru_Peek lru (bc_c bc) round \<noteq> None)"

definition bc_IsBlockCached :: "'l lru \<Rightarrow> 'l BlockCache \<Rightarrow> u64 \<Rightarrow> store \<Rightarrow> bool go" where
  "bc_IsBlockCached lru bc round h =
     (case lru_Peek lru (bc_c bc) round of
        Some a \<Rightarrow> go_bind (entry_at h a) (\<lambda>be. Ret (be_B be \<noteq> None))
      | None \<Rightarrow> Ret False)"

section \<open>getBlock\<close>

text \<open>
  The three results of \<open>getBlock\<close>, or the address and the channel on which it blocks.
\<close>

datatype gb_result =
    GB_Ret "BlockWrap option" bool "goerror option"
  | GB_Wait nat nat

definition not_scheduled :: goerror where
  "not_scheduled = new_error ''block not scheduled for load''"

definition block_timeout :: goerror where
  "block_timeout = new_error ''block timeout''"

definition getBlock_start ::
  "'l lru \<Rightarrow> 'l BlockCache \<Rightarrow> u64 \<Rightarrow> store \<Rightarrow> (gb_result \<times> 'l BlockCache) go" where
  "getBlock_start lru bc round h =
     (case lru_Get lru (bc_c bc) round of (item, c') \<Rightarrow>
        let bc' = bc\<lparr>bc_c := c'\<rparr> in
        (case item of
           None \<Rightarrow> Ret (GB_Ret None False None, bc')
         | Some a \<Rightarrow>
             go_bind (entry_at h a) (\<lambda>be.
               case be_Error be of
                 Some e \<Rightarrow> Ret (GB_Ret None False (Some e), bc')
               | None \<Rightarrow>
                   (case be_B be of
                      Some b \<Rightarrow> Ret (GB_Ret (Some b) True None, bc')
                    | None \<Rightarrow>
                        (case be_WaitFor be of
                           None \<Rightarrow> Ret (GB_Ret None False (Some not_scheduled), bc')
                         | Some wch \<Rightarrow> Ret (GB_Wait a wch, bc'))))))"

text \<open>After \<open><-wf\<close>: the entry is read again.\<close>

definition getBlock_woken :: "nat \<Rightarrow> store \<Rightarrow> gb_result go" where
  "getBlock_woken a h =
     go_bind (entry_at h a) (\<lambda>be.
       case be_Error be of
         Some e \<Rightarrow> Ret (GB_Ret None False (Some e))
       | None \<Rightarrow> Ret (GB_Ret (be_B be) True None))"

text \<open>After \<open><-ctx.Done()\<close>.\<close>

definition getBlock_timeout ::
  "'l lru \<Rightarrow> 'l BlockCache \<Rightarrow> u64 \<Rightarrow> goerror \<Rightarrow> store \<Rightarrow> (gb_result \<times> 'l BlockCache \<times> store) go" where
  "getBlock_timeout lru bc round ctx_err h =
     go_bind (addBlock lru bc (error_wrap round block_timeout) h) (\<lambda>(bc', h').
       Ret (GB_Ret None False (Some ctx_err), bc', h'))"

section \<open>The invariant\<close>

definition entry_ok :: "BlockEntry \<Rightarrow> bool" where
  "entry_ok e \<longleftrightarrow>
     (be_WaitFor e \<noteq> None \<or> be_B e \<noteq> None \<or> be_Error e \<noteq> None) \<and>
     (be_Error e \<noteq> None \<longrightarrow> be_WaitFor e = None) \<and>
     (case be_B e of None \<Rightarrow> True | Some b \<Rightarrow> bw_Round b = be_Round e \<and> bw_Error b = None)"

text \<open>The channels that entries still hold.\<close>

definition open_chans :: "store \<Rightarrow> nat list" where
  "open_chans h = List.map_filter be_WaitFor (st_entries h)"

text \<open>
  Every channel made is either closed or held by exactly one entry: no waiter is left with a
  channel that nobody can close, and none is closed twice.
\<close>

definition store_ok :: "store \<Rightarrow> bool" where
  "store_ok h \<longleftrightarrow>
     list_all entry_ok (st_entries h) \<and>
     distinct (st_closed h @ open_chans h) \<and>
     set (st_closed h @ open_chans h) = {..<st_nchan h}"

section \<open>Lemmas on the store\<close>

lemma map_filter_upd:
  assumes "a < length xs"
  shows "List.map_filter f (xs[a := y]) =
    List.map_filter f (take a xs) @ (case f y of None \<Rightarrow> [] | Some c \<Rightarrow> [c]) @ List.map_filter f (drop (Suc a) xs)"
  using assms by (simp add: upd_conv_take_nth_drop map_filter_def split: option.splits)

lemmas map_filter_at = map_filter_upd [where y = "xs ! a" and xs = xs and a = a for xs a, simplified list_update_id]

lemma list_all_upd: "list_all P xs \<Longrightarrow> P y \<Longrightarrow> list_all P (xs[a := y])"
  by (auto simp: list_all_iff dest: set_update_subset_insert[THEN subsetD])

lemma set_entry_simps [simp]:
  "st_entries (set_entry a e h) = (st_entries h)[a := e]"
  "st_nchan (set_entry a e h) = st_nchan h"
  "st_closed (set_entry a e h) = st_closed h"
  by (simp_all add: set_entry_def)

lemma open_chans_append:
  "st_entries h' = st_entries h @ [e] \<Longrightarrow>
     open_chans h' = open_chans h @ (case be_WaitFor e of None \<Rightarrow> [] | Some c \<Rightarrow> [c])"
  by (simp add: open_chans_def map_filter_def split: option.splits)

lemma entry_at_Ret [simp]: "entry_at h a = Ret e \<longleftrightarrow> a < length (st_entries h) \<and> e = st_entries h ! a"
  by (auto simp: entry_at_def)

lemma store_ok_empty: "store_ok empty_store"
  by (simp add: store_ok_def empty_store_def open_chans_def map_filter_def)

lemma store_ok_fresh: "store_ok h \<Longrightarrow> st_nchan h \<notin> set (st_closed h) \<and> st_nchan h \<notin> set (open_chans h)"
  by (auto simp: store_ok_def set_eq_iff)

text \<open>Allocation of an entry, with or without a fresh channel.\<close>

lemma store_ok_new_entry:
  "store_ok h \<Longrightarrow> entry_ok e \<Longrightarrow> be_WaitFor e = None \<Longrightarrow> store_ok (snd (new_entry e h))"
  by (simp add: store_ok_def new_entry_def open_chans_append[where h = h and e = e])

lemma store_ok_new_promise:
  assumes "store_ok h"
  shows "store_ok (snd (new_entry \<lparr>be_B = None, be_WaitFor = Some (st_nchan h), be_Round = r, be_Error = None\<rparr>
    (snd (make_chan h))))"
proof -
  let ?e = "\<lparr>be_B = None, be_WaitFor = Some (st_nchan h), be_Round = r, be_Error = None\<rparr>"
  let ?h = "snd (new_entry ?e (snd (make_chan h)))"
  have eq: "st_entries ?h = st_entries h @ [?e]" "st_closed ?h = st_closed h" "st_nchan ?h = Suc (st_nchan h)"
    by (simp_all add: make_chan_def new_entry_def)
  have "open_chans ?h = open_chans h @ [st_nchan h]"
    using open_chans_append[OF eq(1)] by simp
  moreover have "entry_ok ?e" by (simp add: entry_ok_def)
  ultimately show ?thesis
    using assms store_ok_fresh[OF assms] by (simp add: store_ok_def eq lessThan_Suc)
qed

text \<open>Replacement of an entry by one with the same channel.\<close>

lemma store_ok_same_chan:
  assumes "store_ok h" "a < length (st_entries h)" "entry_ok e"
    and "be_WaitFor e = be_WaitFor (st_entries h ! a)"
  shows "store_ok (set_entry a e h)"
proof -
  have "open_chans (set_entry a e h) = open_chans h"
    using map_filter_at[OF assms(2), of be_WaitFor] assms(2,4) by (simp add: open_chans_def map_filter_upd)
  then show ?thesis using assms by (simp add: store_ok_def list_all_upd)
qed

text \<open>An entry without a channel gets a fresh one.\<close>

lemma store_ok_rearm:
  assumes "store_ok h" "a < length (st_entries h)" "be_WaitFor (st_entries h ! a) = None"
    and "entry_ok e" "be_WaitFor e = Some (st_nchan h)"
  shows "store_ok (set_entry a e (snd (make_chan h)))"
proof -
  let ?us = "List.map_filter be_WaitFor (take a (st_entries h))"
    and ?vs = "List.map_filter be_WaitFor (drop (Suc a) (st_entries h))"
  have "open_chans h = ?us @ ?vs"
    using map_filter_at[OF assms(2), of be_WaitFor] assms(3) by (simp add: open_chans_def)
  moreover have "open_chans (set_entry a e (snd (make_chan h))) = ?us @ st_nchan h # ?vs"
    using assms(2,5) by (simp add: open_chans_def map_filter_upd make_chan_def)
  ultimately show ?thesis
    using assms(1,4) store_ok_fresh[OF assms(1)]
    by (simp add: store_ok_def list_all_upd make_chan_def lessThan_Suc)
qed

text \<open>The channel of an entry is closed and dropped.\<close>

lemma store_ok_notify:
  assumes "store_ok h" "a < length (st_entries h)" "be_WaitFor (st_entries h ! a) = Some ch"
    and "entry_ok e" "be_WaitFor e = None"
  shows "ch \<notin> set (st_closed h)" "store_ok (set_entry a e (h\<lparr>st_closed := ch # st_closed h\<rparr>))"
proof -
  let ?us = "List.map_filter be_WaitFor (take a (st_entries h))"
    and ?vs = "List.map_filter be_WaitFor (drop (Suc a) (st_entries h))"
  have o: "open_chans h = ?us @ ch # ?vs"
    using map_filter_at[OF assms(2), of be_WaitFor] assms(3) by (simp add: open_chans_def)
  then show "ch \<notin> set (st_closed h)" using assms(1) by (auto simp: store_ok_def)
  have "open_chans (set_entry a e (h\<lparr>st_closed := ch # st_closed h\<rparr>)) = ?us @ ?vs"
    using assms(2,5) by (simp add: open_chans_def map_filter_upd)
  then show "store_ok (set_entry a e (h\<lparr>st_closed := ch # st_closed h\<rparr>))"
    using assms(1,4) o by (simp add: store_ok_def list_all_upd)
qed

section \<open>How the store evolves\<close>

text \<open>
  Along every operation: addresses stay valid, an entry keeps its round, a block once present
  is never replaced, and a channel that an entry holds stays with it until it is closed.
\<close>

definition store_le :: "store \<Rightarrow> store \<Rightarrow> bool" where
  "store_le h h' \<longleftrightarrow>
     length (st_entries h) \<le> length (st_entries h') \<and> st_nchan h \<le> st_nchan h' \<and>
     set (st_closed h) \<subseteq> set (st_closed h') \<and>
     (\<forall>a < length (st_entries h).
        be_Round (st_entries h' ! a) = be_Round (st_entries h ! a) \<and>
        (be_B (st_entries h ! a) \<noteq> None \<longrightarrow> be_B (st_entries h' ! a) = be_B (st_entries h ! a)) \<and>
        (\<forall>c. be_WaitFor (st_entries h ! a) = Some c \<longrightarrow>
             be_WaitFor (st_entries h' ! a) = Some c \<or> c \<in> set (st_closed h')))"

lemma store_le_refl [simp]: "store_le h h"
  by (simp add: store_le_def)

lemma store_le_trans:
  assumes "store_le h1 h2" "store_le h2 h3"
  shows "store_le h1 h3"
  unfolding store_le_def
proof (intro conjI allI impI)
  fix a assume a: "a < length (st_entries h1)"
  then have a2: "a < length (st_entries h2)" using assms(1) by (auto simp: store_le_def)
  show "be_Round (st_entries h3 ! a) = be_Round (st_entries h1 ! a)"
    using assms a a2 by (simp add: store_le_def)
  show "be_B (st_entries h1 ! a) \<noteq> None \<Longrightarrow> be_B (st_entries h3 ! a) = be_B (st_entries h1 ! a)"
    using assms a a2 by (simp add: store_le_def)
  fix c assume "be_WaitFor (st_entries h1 ! a) = Some c"
  then have "be_WaitFor (st_entries h2 ! a) = Some c \<or> c \<in> set (st_closed h2)"
    using assms(1) a by (simp add: store_le_def)
  then show "be_WaitFor (st_entries h3 ! a) = Some c \<or> c \<in> set (st_closed h3)"
    using assms(2) a2 by (auto simp: store_le_def)
qed (use assms in \<open>auto simp: store_le_def\<close>)

lemma store_le_new_entry: "store_le h (snd (new_entry e h))"
  by (simp add: store_le_def new_entry_def nth_append)

lemma store_le_make_chan: "store_le h (snd (make_chan h))"
  by (simp add: store_le_def make_chan_def)

lemma nth_update_at: "i < length xs \<Longrightarrow> xs[a := x] ! i = (if i = a then x else xs ! i)"
  by (cases "i = a") simp_all

lemma store_le_set_entry:
  assumes "be_Round e = be_Round (st_entries h ! a)"
    and "be_B (st_entries h ! a) \<noteq> None \<Longrightarrow> be_B e = be_B (st_entries h ! a)"
    and "\<And>c. be_WaitFor (st_entries h ! a) = Some c \<Longrightarrow> be_WaitFor e = Some c \<or> c \<in> set (st_closed h)"
  shows "store_le h (set_entry a e h)"
  using assms by (auto simp: store_le_def nth_update_at)

section \<open>The locked parts\<close>

lemma entries_ok_at: "store_ok h \<Longrightarrow> a < length (st_entries h) \<Longrightarrow> entry_ok (st_entries h ! a)"
  by (simp add: store_ok_def list_all_length)

text \<open>Re-arming: the error goes, a block stays.\<close>

lemma promise_found_ok:
  assumes "store_ok h" "a < length (st_entries h)"
  shows "\<exists>h'. promise_found a h = Ret h' \<and> store_ok h' \<and> store_le h h' \<and>
    length (st_entries h') = length (st_entries h) \<and>
    (\<forall>a'. a' \<noteq> a \<longrightarrow> st_entries h' ! a' = st_entries h ! a') \<and>
    be_B (st_entries h' ! a) = be_B (st_entries h ! a) \<and> be_Error (st_entries h' ! a) = None"
proof -
  let ?e = "st_entries h ! a"
  have ok: "entry_ok ?e" using assms by (rule entries_ok_at)
  show ?thesis
  proof (cases "be_Error ?e")
    case None
    then show ?thesis using assms by (simp add: promise_found_def entry_at_def)
  next
    case (Some er)
    let ?e' = "?e\<lparr>be_WaitFor := Some (st_nchan h), be_Error := None\<rparr>"
    let ?h' = "set_entry a ?e' (snd (make_chan h))"
    have w: "be_WaitFor ?e = None" using ok Some by (simp add: entry_ok_def)
    have ok': "entry_ok ?e'" using ok by (simp add: entry_ok_def split: option.splits)
    have ent: "st_entries (snd (make_chan h)) = st_entries h" by (simp add: make_chan_def)
    have "promise_found a h = Ret ?h'"
      using Some assms(2) by (simp add: promise_found_def entry_at_def make_chan_def)
    moreover have "store_ok ?h'" using assms w ok' by (intro store_ok_rearm) simp_all
    moreover have "store_le (snd (make_chan h)) ?h'" using w by (intro store_le_set_entry) (simp_all add: ent)
    ultimately show ?thesis
      using assms(2) store_le_trans[OF store_le_make_chan] by (simp add: ent)
  qed
qed

lemma merge_block_simps:
  "be_Round (merge_block b e) = be_Round e" "be_WaitFor (merge_block b e) = be_WaitFor e"
  "be_B e \<noteq> None \<Longrightarrow> merge_block b e = e"
  by (auto simp: merge_block_def)

lemma merge_block_settled: "be_B (merge_block b e) \<noteq> None \<or> be_Error (merge_block b e) \<noteq> None"
  by (auto simp: merge_block_def)

text \<open>Delivery: the merged entry without a channel, and the channel closed.\<close>

lemma deliver_found_ok:
  assumes "store_ok h" "a < length (st_entries h)" "bw_Round b = be_Round (st_entries h ! a)"
  shows "\<exists>h'. deliver_found a b h = Ret h' \<and> store_ok h' \<and> store_le h h' \<and>
    length (st_entries h') = length (st_entries h) \<and>
    (\<forall>a'. a' \<noteq> a \<longrightarrow> st_entries h' ! a' = st_entries h ! a') \<and>
    st_entries h' ! a = (merge_block b (st_entries h ! a))\<lparr>be_WaitFor := None\<rparr> \<and>
    (\<forall>ch. be_WaitFor (st_entries h ! a) = Some ch \<longrightarrow> ch \<in> set (st_closed h'))"
proof -
  let ?e = "st_entries h ! a"
  let ?m = "merge_block b ?e"
  let ?m' = "?m\<lparr>be_WaitFor := None\<rparr>"
  have ok: "entry_ok ?e" using assms(1,2) by (rule entries_ok_at)
  have ok': "entry_ok ?m'"
    using ok assms(3) merge_block_settled[of b ?e]
    by (auto simp: entry_ok_def merge_block_def split: option.splits if_splits)
  show ?thesis
  proof (cases "be_WaitFor ?e")
    case None
    then have m: "?m' = ?m" by (simp add: merge_block_simps)
    have "deliver_found a b h = Ret (set_entry a ?m h)"
      using None assms(2) by (simp add: deliver_found_def entry_at_def merge_block_simps)
    moreover have "store_ok (set_entry a ?m h)"
      using assms None ok' m by (intro store_ok_same_chan) (simp_all add: merge_block_simps)
    moreover have "store_le h (set_entry a ?m h)"
      using None by (intro store_le_set_entry) (simp_all add: merge_block_simps)
    ultimately show ?thesis using assms(2) None m by simp
  next
    case (Some ch)
    let ?h1 = "h\<lparr>st_closed := ch # st_closed h\<rparr>"
    have s: "ch \<notin> set (st_closed h)" "store_ok (set_entry a ?m' ?h1)"
      using store_ok_notify[OF assms(1,2) Some ok'] by simp_all
    have "deliver_found a b h = Ret (set_entry a ?m' ?h1)"
      using Some assms(2) s(1) merge_block_settled[of b ?e]
      by (simp add: deliver_found_def entry_at_def merge_block_simps close_chan_def)
    moreover have "store_le ?h1 (set_entry a ?m' ?h1)"
      using Some by (intro store_le_set_entry) (simp_all add: merge_block_simps)
    moreover have "store_le h ?h1" by (auto simp: store_le_def)
    ultimately show ?thesis using assms(2) Some s(2) store_le_trans by fastforce
  qed
qed

section \<open>The abstract cache\<close>

text \<open>
  What a cache promises: for a round it knows, the block (if it has arrived) and the error
  (if the last load failed).
\<close>

type_synonym slot = "BlockWrap option \<times> goerror option"

definition cache_view :: "'l lru \<Rightarrow> 'l BlockCache \<Rightarrow> store \<Rightarrow> u64 \<Rightarrow> slot option" where
  "cache_view lru bc h k =
     map_option (\<lambda>a. (be_B (st_entries h ! a), be_Error (st_entries h ! a))) (lru_Peek lru (bc_c bc) k)"

fun spec_promise :: "slot option \<Rightarrow> slot" where
  "spec_promise None = (None, None)"
| "spec_promise (Some (b, e)) = (b, None)"

fun spec_add :: "BlockWrap \<Rightarrow> slot option \<Rightarrow> slot" where
  "spec_add bw None = (if bw_Error bw = None then (Some bw, None) else (None, bw_Error bw))"
| "spec_add bw (Some (Some b, e)) = (Some b, e)"
| "spec_add bw (Some (None, e)) =
     (if bw_Error bw = None then (Some bw, e) else (None, if e = None then bw_Error bw else e))"

text \<open>The answer to a reader, or \<open>None\<close> when the reader has to wait.\<close>

fun spec_get :: "slot option \<Rightarrow> (BlockWrap option \<times> bool \<times> goerror option) option" where
  "spec_get None = Some (None, False, None)"
| "spec_get (Some (b, Some e)) = Some (None, False, Some e)"
| "spec_get (Some (Some b, None)) = Some (Some b, True, None)"
| "spec_get (Some (None, None)) = None"

text \<open>Two views agree but for one evicted round.\<close>

definition evict_le :: "u64 \<Rightarrow> (u64 \<Rightarrow> slot option) \<Rightarrow> (u64 \<Rightarrow> slot option) \<Rightarrow> bool" where
  "evict_le r v v' \<longleftrightarrow> (\<exists>ev. \<forall>k. k \<noteq> r \<longrightarrow> v' k = (if ev = Some k then None else v k))"

definition cache_ok :: "'l lru \<Rightarrow> ('l \<Rightarrow> bool) \<Rightarrow> 'l BlockCache \<Rightarrow> store \<Rightarrow> bool" where
  "cache_ok lru linv bc h \<longleftrightarrow> linv (bc_c bc) \<and>
     (\<forall>k a. lru_Peek lru (bc_c bc) k = Some a \<longrightarrow>
        a < length (st_entries h) \<and> be_Round (st_entries h ! a) = k)"

lemma cache_ok_mono: "cache_ok lru linv bc h \<Longrightarrow> store_le h h' \<Longrightarrow> cache_ok lru linv bc h'"
  unfolding cache_ok_def store_le_def by (metis order_less_le_trans)

text \<open>The addresses that a cache refers to.\<close>

definition cache_refs :: "'l lru \<Rightarrow> 'l BlockCache \<Rightarrow> nat set" where
  "cache_refs lru bc = ran (lru_Peek lru (bc_c bc))"

lemma merge_block_spec:
  "(be_B (merge_block b e), be_Error (merge_block b e)) = spec_add b (Some (be_B e, be_Error e))"
  by (cases "be_B e") (auto simp: merge_block_def)

section \<open>The operations implement the abstract cache\<close>

context lru_ops
begin

text \<open>
  The common part of the two updates: an entry is allocated, \<open>PeekOrAdd\<close> either finds the
  address of the round or stores the new one.
\<close>

lemma peek_or_add_view:
  assumes c: "cache_ok lru linv bc h" and le: "store_le h h'"
    and new: "a = length (st_entries h)" "a < length (st_entries h')" "be_Round (st_entries h' ! a) = r"
    and frame: "\<And>a'. a' < length (st_entries h) \<Longrightarrow> lru_Peek lru (bc_c bc) r \<noteq> Some a' \<Longrightarrow>
      st_entries h' ! a' = st_entries h ! a'"
    and bc': "bc_c bc' = snd (lru_PeekOrAdd lru (bc_c bc) r a)"
  shows "cache_ok lru linv bc' h'"
    and "cache_refs lru bc' \<subseteq> insert a (cache_refs lru bc)"
    and "evict_le r (cache_view lru bc h) (cache_view lru bc' h')"
    and "lru_Peek lru (bc_c bc') r = Some (case lru_Peek lru (bc_c bc) r of Some fa \<Rightarrow> fa | None \<Rightarrow> a)"
proof -
  have inv: "linv (bc_c bc)" using c by (simp add: cache_ok_def)
  have c': "cache_ok lru linv bc h'" using c le by (rule cache_ok_mono)
  show ok: "cache_ok lru linv bc' h'"
    using c' new add_inv[OF inv] add_peek_cases[OF inv] by (fastforce simp: cache_ok_def bc')
  show "cache_refs lru bc' \<subseteq> insert a (cache_refs lru bc)"
    using add_peek_cases[OF inv] by (fastforce simp: cache_refs_def ran_def bc')
  show "lru_Peek lru (bc_c bc') r = Some (case lru_Peek lru (bc_c bc) r of Some fa \<Rightarrow> fa | None \<Rightarrow> a)"
    using add_hit_state[OF inv] add_new[OF inv] by (cases "lru_Peek lru (bc_c bc) r") (simp_all add: bc')
  have same: "cache_view lru bc h' k = cache_view lru bc h k" if "k \<noteq> r" for k
  proof (cases "lru_Peek lru (bc_c bc) k")
    case (Some a')
    then have "a' < length (st_entries h)" "be_Round (st_entries h ! a') = k"
      using c by (simp_all add: cache_ok_def)
    moreover have "lru_Peek lru (bc_c bc) r \<noteq> Some a'" using calculation that c by (auto simp: cache_ok_def)
    ultimately show ?thesis using frame Some by (simp add: cache_view_def)
  qed (simp add: cache_view_def)
  obtain ev where ev: "\<And>k. k \<noteq> r \<Longrightarrow> lru_Peek lru (bc_c bc') k
      = (if ev = Some k then None else lru_Peek lru (bc_c bc) k)"
  proof (cases "lru_Peek lru (bc_c bc) r")
    case None
    with that add_evict[OF inv None, of a] show ?thesis unfolding bc' by blast
  next
    case (Some fa)
    with that[of None] add_hit_state[OF inv Some] show ?thesis unfolding bc' by simp
  qed
  have "cache_view lru bc' h' k = (if ev = Some k then None else cache_view lru bc h k)" if "k \<noteq> r" for k
    using ev[OF that] same[OF that] by (simp add: cache_view_def)
  then show "evict_le r (cache_view lru bc h) (cache_view lru bc' h')" by (auto simp: evict_le_def)
qed

lemma promiseBlock_eq:
  assumes "linv (bc_c bc)"
  shows "promiseBlock lru bc r h =
    (let h2 = snd (new_entry \<lparr>be_B = None, be_WaitFor = Some (st_nchan h), be_Round = r, be_Error = None\<rparr>
                     (snd (make_chan h)));
         a = length (st_entries h);
         bc' = bc\<lparr>bc_c := snd (lru_PeekOrAdd lru (bc_c bc) r a)\<rparr>
     in case lru_Peek lru (bc_c bc) r of
          None \<Rightarrow> Ret (a, bc', h2)
        | Some fa \<Rightarrow> go_bind (promise_found fa h2) (\<lambda>h3. Ret (fa, bc', h3)))"
  by (cases "lru_Peek lru (bc_c bc) r")
     (simp_all add: promiseBlock_def make_chan_def new_entry_def Let_def case_prod_beta add_result[OF assms])

lemma addBlock_eq:
  assumes "linv (bc_c bc)"
  shows "addBlock lru bc b h =
    (let h1 = snd (new_entry (entry_of_block b) h);
         bc' = bc\<lparr>bc_c := snd (lru_PeekOrAdd lru (bc_c bc) (bw_Round b) (length (st_entries h))),
                  bc_last := (if bc_last bc < bw_Round b \<and> bw_Error b = None then bw_Round b
                              else bc_last bc)\<rparr>
     in case lru_Peek lru (bc_c bc) (bw_Round b) of
          None \<Rightarrow> Ret (bc', h1)
        | Some fa \<Rightarrow> go_bind (deliver_found fa b h1) (\<lambda>h2. Ret (bc', h2)))"
  by (cases "lru_Peek lru (bc_c bc) (bw_Round b)")
     (simp_all add: addBlock_def new_entry_def Let_def case_prod_beta add_result[OF assms])

lemma promiseBlock_ok:
  assumes "store_ok h" "cache_ok lru linv bc h"
  shows "\<exists>a bc' h'. promiseBlock lru bc r h = Ret (a, bc', h') \<and> store_ok h' \<and> cache_ok lru linv bc' h' \<and>
    store_le h h' \<and> cache_refs lru bc' \<subseteq> insert (length (st_entries h)) (cache_refs lru bc) \<and>
    cache_view lru bc' h' r = Some (spec_promise (cache_view lru bc h r)) \<and>
    evict_le r (cache_view lru bc h) (cache_view lru bc' h') \<and>
    (\<forall>a'. a' < length (st_entries h) \<and> a' \<notin> cache_refs lru bc \<longrightarrow> st_entries h' ! a' = st_entries h ! a') \<and>
    bc_last bc' = bc_last bc"
proof -
  have inv: "linv (bc_c bc)" using assms(2) by (simp add: cache_ok_def)
  let ?e = "\<lparr>be_B = None, be_WaitFor = Some (st_nchan h), be_Round = r, be_Error = None\<rparr>"
  let ?h2 = "snd (new_entry ?e (snd (make_chan h)))"
  let ?a = "length (st_entries h)"
  let ?bc' = "bc\<lparr>bc_c := snd (lru_PeekOrAdd lru (bc_c bc) r ?a)\<rparr>"
  have alloc: "st_entries ?h2 = st_entries h @ [?e]"
    by (simp add: make_chan_def new_entry_def)
  have ok2: "store_ok ?h2" using assms(1) by (rule store_ok_new_promise)
  have le2: "store_le h ?h2" using store_le_trans[OF store_le_make_chan store_le_new_entry] .
  show ?thesis
  proof (cases "lru_Peek lru (bc_c bc) r")
    case None
    have run: "promiseBlock lru bc r h = Ret (?a, ?bc', ?h2)"
      using None by (simp add: promiseBlock_eq[OF inv] Let_def)
    note v = peek_or_add_view[OF assms(2) le2 refl, where bc' = ?bc' and r = r]
    show ?thesis
      using run ok2 le2 v alloc None by (simp add: nth_append cache_view_def)
  next
    case (Some fa)
    then have fa: "fa < length (st_entries h)" "be_Round (st_entries h ! fa) = r" "fa \<in> cache_refs lru bc"
      using assms(2) by (auto simp: cache_ok_def cache_refs_def ran_def)
    obtain h3 where h3: "promise_found fa ?h2 = Ret h3" "store_ok h3" "store_le ?h2 h3"
      "length (st_entries h3) = length (st_entries ?h2)"
      "\<forall>a'. a' \<noteq> fa \<longrightarrow> st_entries h3 ! a' = st_entries ?h2 ! a'"
      "be_B (st_entries h3 ! fa) = be_B (st_entries ?h2 ! fa)" "be_Error (st_entries h3 ! fa) = None"
      using promise_found_ok[OF ok2, of fa] fa alloc by auto
    have run: "promiseBlock lru bc r h = Ret (fa, ?bc', h3)"
      using Some h3(1) by (simp add: promiseBlock_eq[OF inv] Let_def)
    have le: "store_le h h3" using le2 h3(3) by (rule store_le_trans)
    note v = peek_or_add_view[OF assms(2) le refl, where bc' = ?bc' and r = r]
    show ?thesis
      using run h3 le v alloc Some fa by (auto simp: nth_append cache_view_def)
  qed
qed

lemma addBlock_ok:
  assumes "store_ok h" "cache_ok lru linv bc h"
  shows "\<exists>bc' h'. addBlock lru bc b h = Ret (bc', h') \<and> store_ok h' \<and> cache_ok lru linv bc' h' \<and>
    store_le h h' \<and> cache_refs lru bc' \<subseteq> insert (length (st_entries h)) (cache_refs lru bc) \<and>
    cache_view lru bc' h' (bw_Round b) = Some (spec_add b (cache_view lru bc h (bw_Round b))) \<and>
    evict_le (bw_Round b) (cache_view lru bc h) (cache_view lru bc' h') \<and>
    (\<forall>a'. a' < length (st_entries h) \<and> a' \<notin> cache_refs lru bc \<longrightarrow> st_entries h' ! a' = st_entries h ! a') \<and>
    bc_last bc' = (if bc_last bc < bw_Round b \<and> bw_Error b = None then bw_Round b else bc_last bc) \<and>
    (\<forall>a ch. lru_Peek lru (bc_c bc) (bw_Round b) = Some a \<and> be_WaitFor (st_entries h ! a) = Some ch \<longrightarrow>
       ch \<in> set (st_closed h'))"
proof -
  have inv: "linv (bc_c bc)" using assms(2) by (simp add: cache_ok_def)
  let ?r = "bw_Round b" and ?e = "entry_of_block b" and ?a = "length (st_entries h)"
  let ?h1 = "snd (new_entry ?e h)"
  let ?bc' = "bc\<lparr>bc_c := snd (lru_PeekOrAdd lru (bc_c bc) ?r ?a),
      bc_last := (if bc_last bc < ?r \<and> bw_Error b = None then ?r else bc_last bc)\<rparr>"
  have alloc: "st_entries ?h1 = st_entries h @ [?e]" by (simp add: new_entry_def)
  have ok1: "store_ok ?h1"
    using assms(1) by (rule store_ok_new_entry) (simp_all add: entry_ok_def entry_of_block_def)
  have le1: "store_le h ?h1" by (rule store_le_new_entry)
  show ?thesis
  proof (cases "lru_Peek lru (bc_c bc) ?r")
    case None
    have run: "addBlock lru bc b h = Ret (?bc', ?h1)"
      using None by (simp add: addBlock_eq[OF inv] Let_def)
    note v = peek_or_add_view[OF assms(2) le1 refl, where bc' = ?bc' and r = ?r]
    show ?thesis
      using run ok1 le1 v alloc None by (simp add: nth_append cache_view_def entry_of_block_def)
  next
    case (Some fa)
    then have fa: "fa < length (st_entries h)" "be_Round (st_entries h ! fa) = ?r" "fa \<in> cache_refs lru bc"
      using assms(2) by (auto simp: cache_ok_def cache_refs_def ran_def)
    obtain h2 where h2: "deliver_found fa b ?h1 = Ret h2" "store_ok h2" "store_le ?h1 h2"
      "length (st_entries h2) = length (st_entries ?h1)"
      "\<forall>a'. a' \<noteq> fa \<longrightarrow> st_entries h2 ! a' = st_entries ?h1 ! a'"
      "st_entries h2 ! fa = (merge_block b (st_entries ?h1 ! fa))\<lparr>be_WaitFor := None\<rparr>"
      "\<forall>ch. be_WaitFor (st_entries ?h1 ! fa) = Some ch \<longrightarrow> ch \<in> set (st_closed h2)"
      using deliver_found_ok[OF ok1, of fa b] fa alloc by (auto simp: nth_append)
    have run: "addBlock lru bc b h = Ret (?bc', h2)"
      using Some h2(1) by (simp add: addBlock_eq[OF inv] Let_def)
    have le: "store_le h h2" using le1 h2(3) by (rule store_le_trans)
    note v = peek_or_add_view[OF assms(2) le refl, where bc' = ?bc' and r = ?r]
    have fr: "st_entries h2 ! a' = st_entries h ! a'" if "a' < length (st_entries h)" "a' \<noteq> fa" for a'
      using h2(5) that alloc by (simp add: nth_append)
    have new: "?a < length (st_entries h2)" "be_Round (st_entries h2 ! ?a) = ?r"
      using h2(4,5) fa(1) alloc by (auto simp: nth_append entry_of_block_def)
    have view: "cache_view lru ?bc' h2 ?r = Some (spec_add b (cache_view lru bc h ?r))"
      using add_hit_state[OF inv Some] h2(6) merge_block_spec[of b "st_entries h ! fa"] Some fa alloc
      by (simp add: cache_view_def nth_append)
    have "\<forall>a'. a' < length (st_entries h) \<and> a' \<notin> cache_refs lru bc \<longrightarrow> st_entries h2 ! a' = st_entries h ! a'"
      using fr fa(3) by auto
    moreover have "\<forall>ch. be_WaitFor (st_entries h ! fa) = Some ch \<longrightarrow> ch \<in> set (st_closed h2)"
      using h2(7) fa(1) alloc by (simp add: nth_append)
    ultimately show ?thesis
      using run h2(2) le v(1-3)[OF new] fr view Some by auto
  qed
qed

text \<open>The entry of a round that the cache knows, after a delivery.\<close>

lemma addBlock_hit:
  assumes "store_ok h" "cache_ok lru linv bc h" "lru_Peek lru (bc_c bc) (bw_Round b) = Some fa"
    and "addBlock lru bc b h = Ret (bc', h')"
  shows "st_entries h' ! fa = (merge_block b (st_entries h ! fa))\<lparr>be_WaitFor := None\<rparr>"
proof -
  have inv: "linv (bc_c bc)" and fa: "fa < length (st_entries h)" "be_Round (st_entries h ! fa) = bw_Round b"
    using assms(2,3) by (simp_all add: cache_ok_def)
  let ?h1 = "snd (new_entry (entry_of_block b) h)"
  have alloc: "st_entries ?h1 = st_entries h @ [entry_of_block b]" by (simp add: new_entry_def)
  have ok1: "store_ok ?h1"
    using assms(1) by (rule store_ok_new_entry) (simp_all add: entry_ok_def entry_of_block_def)
  have "deliver_found fa b ?h1 = Ret h'"
    using assms(3,4) by (auto simp: addBlock_eq[OF inv] Let_def go_simps)
  then show ?thesis using deliver_found_ok[OF ok1, of fa b] fa alloc by (auto simp: nth_append)
qed

lemma bc_IsBlockCached_ok:
  assumes "cache_ok lru linv bc h"
  shows "bc_IsBlockCached lru bc r h = Ret (\<exists>b e. cache_view lru bc h r = Some (Some b, e))"
proof (cases "lru_Peek lru (bc_c bc) r")
  case (Some a)
  with assms have "a < length (st_entries h)" by (simp add: cache_ok_def)
  with Some show ?thesis by (simp add: bc_IsBlockCached_def cache_view_def entry_at_def)
qed (simp add: bc_IsBlockCached_def cache_view_def)

text \<open>
  \<open>getBlock\<close> before it blocks: the answer of the abstract cache, or the channel of the round's
  entry; the error ``block not scheduled for load'' does not occur.
\<close>

lemma getBlock_start_ok:
  assumes "store_ok h" "cache_ok lru linv bc h"
  shows "\<exists>res bc'. getBlock_start lru bc r h = Ret (res, bc') \<and> cache_ok lru linv bc' h \<and>
    cache_refs lru bc' = cache_refs lru bc \<and>
    cache_view lru bc' h = cache_view lru bc h \<and> bc_last bc' = bc_last bc \<and>
    (case spec_get (cache_view lru bc h r) of
       Some (b, ok, e) \<Rightarrow> res = GB_Ret b ok e
     | None \<Rightarrow> (\<exists>a ch. res = GB_Wait a ch \<and> lru_Peek lru (bc_c bc) r = Some a \<and>
                  be_WaitFor (st_entries h ! a) = Some ch))"
proof -
  have inv: "linv (bc_c bc)" using assms(2) by (simp add: cache_ok_def)
  let ?bc' = "bc\<lparr>bc_c := snd (lru_Get lru (bc_c bc) r)\<rparr>"
  have peek: "lru_Peek lru (bc_c ?bc') = lru_Peek lru (bc_c bc)" using get_peek[OF inv] by auto
  have props: "cache_ok lru linv ?bc' h" "cache_refs lru ?bc' = cache_refs lru bc"
      "cache_view lru ?bc' h = cache_view lru bc h" "bc_last ?bc' = bc_last bc"
    using assms(2) peek get_inv[OF inv] by (auto simp: cache_ok_def cache_refs_def cache_view_def)
  have get: "lru_Get lru (bc_c bc) r = (lru_Peek lru (bc_c bc) r, bc_c ?bc')"
    using get_result[OF inv] by (simp add: prod_eq_iff)
  show ?thesis
  proof (cases "lru_Peek lru (bc_c bc) r")
    case None
    then have "getBlock_start lru bc r h = Ret (GB_Ret None False None, ?bc')"
      unfolding getBlock_start_def by (subst get) (simp add: Let_def)
    with None props show ?thesis by (simp add: cache_view_def)
  next
    case (Some a)
    then have a: "a < length (st_entries h)" using assms(2) by (simp add: cache_ok_def)
    let ?e = "st_entries h ! a"
    have ok: "entry_ok ?e" using assms(1) a by (rule entries_ok_at)
    show ?thesis
    proof (cases "be_Error ?e = None \<and> be_B ?e = None")
      case True
      then obtain ch where ch: "be_WaitFor ?e = Some ch" using ok by (auto simp: entry_ok_def)
      have "getBlock_start lru bc r h = Ret (GB_Wait a ch, ?bc')"
        unfolding getBlock_start_def using Some a True ch by (subst get) (simp add: entry_at_def Let_def)
      with Some True ch props show ?thesis by (simp add: cache_view_def)
    next
      case False
      have run: "getBlock_start lru bc r h =
          (case spec_get (Some (be_B ?e, be_Error ?e)) of
             Some (b, ok, e) \<Rightarrow> Ret (GB_Ret b ok e, ?bc') | None \<Rightarrow> Panic NilDeref)"
        unfolding getBlock_start_def using Some a False
        by (subst get) (auto simp: entry_at_def Let_def split: option.splits)
      show ?thesis
        using run Some props False by (cases "be_B ?e"; cases "be_Error ?e") (simp_all add: cache_view_def)
    qed
  qed
qed

end

end
