(* ===== verification/Unified_Cache.thy ===== *)
theory Unified_Cache
  imports Block_Cache
begin

text \<open>
  \<open>internal/blockcache/unified.go\<close>: the catchup cache for recent rounds and the archive cache
  for the rest behind one interface. \<open>PromiseBlock\<close> starts a goroutine that calls
  \<open>LoadBlockSync\<close> of the block fetcher; the model appends the round to the list of loads
  that were started, and the theory of the cluster runs them. \<open>GetBlock\<close> may block four times, so it is
  a small machine: a program counter, one step function for its running parts, one for a
  wake-up and one for the end of its context.

  A system state is the caches and any number of concurrent \<open>GetBlock\<close> calls. Its step
  relation interleaves them with deliveries and promises from elsewhere; the locked parts of
  \<open>addBlock\<close> and \<open>promiseBlock\<close> are also steps of their own, because another goroutine can
  run between the lookup in the LRU and the lock of the entry.
\<close>

section \<open>The caches\<close>

definition CatchupSize :: u64 where
  "CatchupSize = 1000"

definition ArchSize :: u64 where
  "ArchSize = 1000"

record 'l UnifiedBlockCache =
  uc_catchupCache :: "'l BlockCache"
  uc_archCache :: "'l BlockCache"
  uc_store :: store
  uc_loads :: "u64 list"

datatype which_cache = CatchupCache | ArchCache

instantiation which_cache :: enum
begin

definition enum_which_cache :: "which_cache list" where
  "enum_which_cache = [CatchupCache, ArchCache]"

definition enum_all_which_cache :: "(which_cache \<Rightarrow> bool) \<Rightarrow> bool" where
  "enum_all_which_cache P \<longleftrightarrow> P CatchupCache \<and> P ArchCache"

definition enum_ex_which_cache :: "(which_cache \<Rightarrow> bool) \<Rightarrow> bool" where
  "enum_ex_which_cache P \<longleftrightarrow> P CatchupCache \<or> P ArchCache"

instance
proof
  show "UNIV = set (enum_class.enum :: which_cache list)" by (auto simp: enum_which_cache_def intro: which_cache.exhaust)
  show "distinct (enum_class.enum :: which_cache list)" by (simp add: enum_which_cache_def)
  show "enum_class.enum_all P \<longleftrightarrow> Ball UNIV P" for P :: "which_cache \<Rightarrow> bool"
    unfolding enum_all_which_cache_def by (metis UNIV_I which_cache.exhaust)
  show "enum_class.enum_ex P \<longleftrightarrow> Bex UNIV P" for P :: "which_cache \<Rightarrow> bool"
    unfolding enum_ex_which_cache_def by (metis UNIV_I which_cache.exhaust)
qed

end

lemma both_caches: "(\<exists>w. P w) \<longleftrightarrow> P CatchupCache \<or> P ArchCache" "(\<forall>w. P w) \<longleftrightarrow> P CatchupCache \<and> P ArchCache"
  by (metis which_cache.exhaust)+

primrec sel_cache :: "which_cache \<Rightarrow> 'l UnifiedBlockCache \<Rightarrow> 'l BlockCache" where
  "sel_cache CatchupCache u = uc_catchupCache u"
| "sel_cache ArchCache u = uc_archCache u"

primrec upd_cache :: "which_cache \<Rightarrow> 'l BlockCache \<Rightarrow> store \<Rightarrow> 'l UnifiedBlockCache \<Rightarrow> 'l UnifiedBlockCache" where
  "upd_cache CatchupCache bc h u = u\<lparr>uc_catchupCache := bc, uc_store := h\<rparr>"
| "upd_cache ArchCache bc h u = u\<lparr>uc_archCache := bc, uc_store := h\<rparr>"

primrec other_cache :: "which_cache \<Rightarrow> which_cache" where
  "other_cache CatchupCache = ArchCache"
| "other_cache ArchCache = CatchupCache"

definition getCacheWithPeek :: "'l lru \<Rightarrow> 'l UnifiedBlockCache \<Rightarrow> u64 \<Rightarrow> which_cache" where
  "getCacheWithPeek lru ubc round =
     (if round = 0 \<or> IsBlockPromised lru (uc_archCache ubc) round then ArchCache
      else if round > 0 \<and> (bc_last (uc_catchupCache ubc) = 0
                           \<or> round > bc_last (uc_catchupCache ubc) - CatchupSize) then CatchupCache
      else ArchCache)"

definition AddBlock :: "'l lru \<Rightarrow> 'l UnifiedBlockCache \<Rightarrow> BlockWrap \<Rightarrow> 'l UnifiedBlockCache go" where
  "AddBlock lru ubc b =
     (let w = getCacheWithPeek lru ubc (bw_Round b) in
      go_bind (addBlock lru (sel_cache w ubc) b (uc_store ubc)) (\<lambda>(bc, h).
        Ret (upd_cache w bc h ubc)))"

definition PromiseBlock ::
  "'l lru \<Rightarrow> 'l UnifiedBlockCache \<Rightarrow> u64 \<Rightarrow> (nat \<times> 'l UnifiedBlockCache) go" where
  "PromiseBlock lru ubc round =
     (let w = getCacheWithPeek lru ubc round in
      go_bind (promiseBlock lru (sel_cache w ubc) round (uc_store ubc)) (\<lambda>(be, bc, h).
        Ret (be, (upd_cache w bc h ubc)\<lparr>uc_loads := uc_loads ubc @ [round]\<rparr>)))"

definition IsBlockCached :: "'l lru \<Rightarrow> 'l UnifiedBlockCache \<Rightarrow> u64 \<Rightarrow> bool go" where
  "IsBlockCached lru ubc round =
     go_bind (bc_IsBlockCached lru (uc_catchupCache ubc) round (uc_store ubc)) (\<lambda>c.
       if c then Ret True else bc_IsBlockCached lru (uc_archCache ubc) round (uc_store ubc))"

definition New :: "'l lru \<Rightarrow> 'l UnifiedBlockCache" where
  "New lru =
     \<lparr>uc_catchupCache = \<lparr>bc_c = lru_New lru (unat CatchupSize), bc_last = 0, bc_name = ''catchup''\<rparr>,
      uc_archCache = \<lparr>bc_c = lru_New lru (unat ArchSize), bc_last = 0, bc_name = ''archive''\<rparr>,
      uc_store = empty_store,
      uc_loads = []\<rparr>"

section \<open>GetBlock\<close>

text \<open>
  The points between the calls of \<open>GetBlock\<close>: before the first lookups, before the promise,
  before the second lookups, blocked in one of the lookups, returned.
\<close>

datatype gb_pc =
    GB_Catchup1 | GB_Arch1 | GB_Promise | GB_Catchup2 | GB_Arch2
  | GB_Waiting gb_pc nat nat
  | GB_Done "BlockWrap option" "goerror option"

definition err_getting_block :: "u64 \<Rightarrow> goerror" where
  "err_getting_block round = new_error (''error getting block '' @ format_nat (unat round))"

text \<open>Which cache a lookup reads, and where \<open>GetBlock\<close> goes on when the lookup has returned.\<close>

fun gb_cache :: "gb_pc \<Rightarrow> which_cache" where
  "gb_cache GB_Arch1 = ArchCache"
| "gb_cache GB_Arch2 = ArchCache"
| "gb_cache _ = CatchupCache"

fun gb_next :: "u64 \<Rightarrow> gb_pc \<Rightarrow> BlockWrap option \<Rightarrow> goerror option \<Rightarrow> gb_pc" where
  "gb_next round GB_Catchup1 bw err = (if bw \<noteq> None then GB_Done bw None else GB_Arch1)"
| "gb_next round GB_Arch1 bw err = (if bw \<noteq> None then GB_Done bw None else GB_Promise)"
| "gb_next round GB_Catchup2 bw err = (if bw \<noteq> None \<or> err \<noteq> None then GB_Done bw err else GB_Arch2)"
| "gb_next round GB_Arch2 bw err =
     (if bw \<noteq> None \<or> err \<noteq> None then GB_Done bw err else GB_Done None (Some (err_getting_block round)))"
| "gb_next round pc bw err = pc"

fun gb_resume :: "u64 \<Rightarrow> gb_pc \<Rightarrow> gb_result \<Rightarrow> gb_pc" where
  "gb_resume round pc (GB_Ret bw ok err) = gb_next round pc bw err"
| "gb_resume round pc (GB_Wait a ch) = GB_Waiting pc a ch"

definition gb_lookups :: "gb_pc set" where
  "gb_lookups = {GB_Catchup1, GB_Arch1, GB_Catchup2, GB_Arch2}"

text \<open>One running part of \<open>GetBlock\<close>; nothing happens when it is blocked or has returned.\<close>

definition gb_lookup ::
  "'l lru \<Rightarrow> u64 \<Rightarrow> gb_pc \<Rightarrow> 'l UnifiedBlockCache \<Rightarrow> (gb_pc \<times> 'l UnifiedBlockCache) go" where
  "gb_lookup lru round pc ubc =
     (let w = gb_cache pc in
      go_bind (getBlock_start lru (sel_cache w ubc) round (uc_store ubc)) (\<lambda>(res, bc).
        Ret (gb_resume round pc res, upd_cache w bc (uc_store ubc) ubc)))"

fun gb_step ::
  "'l lru \<Rightarrow> u64 \<Rightarrow> gb_pc \<Rightarrow> 'l UnifiedBlockCache \<Rightarrow> (gb_pc \<times> 'l UnifiedBlockCache) go" where
  "gb_step lru round GB_Promise ubc =
     go_bind (PromiseBlock lru ubc round) (\<lambda>(_, ubc'). Ret (GB_Catchup2, ubc'))"
| "gb_step lru round (GB_Waiting pc a ch) ubc = Ret (GB_Waiting pc a ch, ubc)"
| "gb_step lru round (GB_Done bw err) ubc = Ret (GB_Done bw err, ubc)"
| "gb_step lru round pc ubc = gb_lookup lru round pc ubc"

definition gb_wake :: "u64 \<Rightarrow> gb_pc \<Rightarrow> nat \<Rightarrow> 'l UnifiedBlockCache \<Rightarrow> gb_pc go" where
  "gb_wake round pc a ubc = go_bind (getBlock_woken a (uc_store ubc)) (\<lambda>res. Ret (gb_resume round pc res))"

definition gb_timeout ::
  "'l lru \<Rightarrow> u64 \<Rightarrow> gb_pc \<Rightarrow> goerror \<Rightarrow> 'l UnifiedBlockCache \<Rightarrow> (gb_pc \<times> 'l UnifiedBlockCache) go" where
  "gb_timeout lru round pc ctx_err ubc =
     (let w = gb_cache pc in
      go_bind (getBlock_timeout lru (sel_cache w ubc) round ctx_err (uc_store ubc)) (\<lambda>(res, bc, h).
        Ret (gb_resume round pc res, upd_cache w bc h ubc)))"

text \<open>A call that runs alone until it returns or blocks.\<close>

fun gb_run ::
  "nat \<Rightarrow> 'l lru \<Rightarrow> u64 \<Rightarrow> gb_pc \<Rightarrow> 'l UnifiedBlockCache \<Rightarrow> (gb_pc \<times> 'l UnifiedBlockCache) go" where
  "gb_run 0 lru round pc ubc = Ret (pc, ubc)"
| "gb_run (Suc n) lru round pc ubc =
     go_bind (gb_step lru round pc ubc) (\<lambda>(pc', ubc'). gb_run n lru round pc' ubc')"

section \<open>Concurrent calls\<close>

record 'l usys =
  us_cache :: "'l UnifiedBlockCache"
  us_calls :: "(u64 \<times> gb_pc) list"

text \<open>
  The label of a step is the block it delivers, if it is a delivery.
\<close>

inductive ustep :: "'l lru \<Rightarrow> BlockWrap option \<Rightarrow> 'l usys \<Rightarrow> 'l usys \<Rightarrow> bool" for lru where
  us_call: "ustep lru None s (s\<lparr>us_calls := us_calls s @ [(r, GB_Catchup1)]\<rparr>)"
| us_add: "AddBlock lru (us_cache s) b = Ret u' \<Longrightarrow> ustep lru (Some b) s (s\<lparr>us_cache := u'\<rparr>)"
| us_promise: "PromiseBlock lru (us_cache s) r = Ret (a, u') \<Longrightarrow> ustep lru None s (s\<lparr>us_cache := u'\<rparr>)"
| us_deliver: "a < length (st_entries (uc_store (us_cache s))) \<Longrightarrow>
    bw_Round b = be_Round (st_entries (uc_store (us_cache s)) ! a) \<Longrightarrow>
    deliver_found a b (uc_store (us_cache s)) = Ret h' \<Longrightarrow>
    ustep lru (Some b) s (s\<lparr>us_cache := (us_cache s)\<lparr>uc_store := h'\<rparr>\<rparr>)"
| us_rearm: "a < length (st_entries (uc_store (us_cache s))) \<Longrightarrow>
    promise_found a (uc_store (us_cache s)) = Ret h' \<Longrightarrow>
    ustep lru None s (s\<lparr>us_cache := (us_cache s)\<lparr>uc_store := h'\<rparr>\<rparr>)"
| us_run: "i < length (us_calls s) \<Longrightarrow> us_calls s ! i = (r, pc) \<Longrightarrow>
    gb_step lru r pc (us_cache s) = Ret (pc', u') \<Longrightarrow>
    ustep lru None s (s\<lparr>us_cache := u', us_calls := (us_calls s)[i := (r, pc')]\<rparr>)"
| us_wake: "i < length (us_calls s) \<Longrightarrow> us_calls s ! i = (r, GB_Waiting pc a ch) \<Longrightarrow>
    ch \<in> set (st_closed (uc_store (us_cache s))) \<Longrightarrow>
    gb_wake r pc a (us_cache s) = Ret pc' \<Longrightarrow>
    ustep lru None s (s\<lparr>us_calls := (us_calls s)[i := (r, pc')]\<rparr>)"
| us_timeout: "i < length (us_calls s) \<Longrightarrow> us_calls s ! i = (r, GB_Waiting pc a ch) \<Longrightarrow>
    gb_timeout lru r pc e (us_cache s) = Ret (pc', u') \<Longrightarrow>
    ustep lru None s (s\<lparr>us_cache := u', us_calls := (us_calls s)[i := (r, pc')]\<rparr>)"

inductive ureach :: "'l lru \<Rightarrow> 'l usys \<Rightarrow> bool" for lru where
  ureach_init: "ureach lru \<lparr>us_cache = New lru, us_calls = []\<rparr>"
| ureach_step: "ureach lru s \<Longrightarrow> ustep lru l s s' \<Longrightarrow> ureach lru s'"

text \<open>The same with the history of the deliveries.\<close>

inductive uhist :: "'l lru \<Rightarrow> BlockWrap list \<Rightarrow> 'l usys \<Rightarrow> bool" for lru where
  uhist_init: "uhist lru [] \<lparr>us_cache = New lru, us_calls = []\<rparr>"
| uhist_step: "uhist lru bs s \<Longrightarrow> ustep lru l s s' \<Longrightarrow> uhist lru (bs @ (case l of None \<Rightarrow> [] | Some b \<Rightarrow> [b])) s'"

lemma uhist_ureach: "uhist lru bs s \<Longrightarrow> ureach lru s"
  by (induction rule: uhist.induct) (auto intro: ureach.intros)

lemma ureach_uhist: "ureach lru s \<Longrightarrow> \<exists>bs. uhist lru bs s"
  by (induction rule: ureach.induct) (blast intro: uhist.intros)+

section \<open>The invariant\<close>

definition uc_ok :: "'l lru \<Rightarrow> ('l \<Rightarrow> bool) \<Rightarrow> 'l UnifiedBlockCache \<Rightarrow> bool" where
  "uc_ok lru linv u \<longleftrightarrow> store_ok (uc_store u) \<and>
     cache_ok lru linv (uc_catchupCache u) (uc_store u) \<and>
     cache_ok lru linv (uc_archCache u) (uc_store u) \<and>
     cache_refs lru (uc_catchupCache u) \<inter> cache_refs lru (uc_archCache u) = {}"

text \<open>
  A blocked call holds an entry of its round and a channel that is closed or still that
  entry's; a returned block has the round that was asked for.
\<close>

fun call_ok :: "store \<Rightarrow> u64 \<times> gb_pc \<Rightarrow> bool" where
  "call_ok h (r, GB_Waiting pc a ch) \<longleftrightarrow>
     pc \<in> gb_lookups \<and> a < length (st_entries h) \<and> be_Round (st_entries h ! a) = r \<and>
     (ch \<in> set (st_closed h) \<or> be_WaitFor (st_entries h ! a) = Some ch)"
| "call_ok h (r, GB_Done bw err) \<longleftrightarrow>
     (case bw of None \<Rightarrow> err \<noteq> None | Some b \<Rightarrow> bw_Round b = r \<and> bw_Error b = None \<and> err = None)"
| "call_ok h (r, pc) \<longleftrightarrow> True"

definition usys_ok :: "'l lru \<Rightarrow> ('l \<Rightarrow> bool) \<Rightarrow> 'l usys \<Rightarrow> bool" where
  "usys_ok lru linv s \<longleftrightarrow> uc_ok lru linv (us_cache s) \<and> list_all (call_ok (uc_store (us_cache s))) (us_calls s)"

definition uc_view :: "'l lru \<Rightarrow> which_cache \<Rightarrow> 'l UnifiedBlockCache \<Rightarrow> u64 \<Rightarrow> slot option" where
  "uc_view lru w u = cache_view lru (sel_cache w u) (uc_store u)"

lemma upd_cache_simps [simp]:
  "sel_cache w (upd_cache w bc h u) = bc"
  "sel_cache (other_cache w) (upd_cache w bc h u) = sel_cache (other_cache w) u"
  "uc_store (upd_cache w bc h u) = h"
  "uc_loads (upd_cache w bc h u) = uc_loads u"
  by (cases w; simp)+

lemma uc_ok_sel:
  "uc_ok lru linv u \<longleftrightarrow> store_ok (uc_store u) \<and> cache_ok lru linv (sel_cache w u) (uc_store u) \<and>
     cache_ok lru linv (sel_cache (other_cache w) u) (uc_store u) \<and>
     cache_refs lru (sel_cache w u) \<inter> cache_refs lru (sel_cache (other_cache w) u) = {}"
  by (cases w) (auto simp: uc_ok_def)

lemma call_ok_mono: "call_ok h c \<Longrightarrow> store_le h h' \<Longrightarrow> call_ok h' c"
  by (cases "(h, c)" rule: call_ok.cases) (auto simp: store_le_def)

lemma calls_ok_mono: "list_all (call_ok h) cs \<Longrightarrow> store_le h h' \<Longrightarrow> list_all (call_ok h') cs"
  by (auto simp: list_all_iff intro: call_ok_mono)

section \<open>The operations on the two caches\<close>

context lru_ops
begin

lemma cache_refs_bound: "cache_ok lru linv bc h \<Longrightarrow> a \<in> cache_refs lru bc \<Longrightarrow> a < length (st_entries h)"
  by (auto simp: cache_ok_def cache_refs_def ran_def)

lemma uc_ok_upd:
  assumes "uc_ok lru linv u" "store_ok h'" "cache_ok lru linv bc' h'" "store_le (uc_store u) h'"
    and "cache_refs lru bc' \<subseteq> insert (length (st_entries (uc_store u))) (cache_refs lru (sel_cache w u))"
  shows "uc_ok lru linv (upd_cache w bc' h' u)"
proof -
  have o: "cache_ok lru linv (sel_cache (other_cache w) u) (uc_store u)"
    and d: "cache_refs lru (sel_cache w u) \<inter> cache_refs lru (sel_cache (other_cache w) u) = {}"
    using assms(1) uc_ok_sel[of lru linv u w] by simp_all
  have "length (st_entries (uc_store u)) \<notin> cache_refs lru (sel_cache (other_cache w) u)"
    using cache_refs_bound[OF o] by blast
  then show ?thesis
    using assms(2-5) o d cache_ok_mono[OF o assms(4)] uc_ok_sel[of lru linv "upd_cache w bc' h' u" w]
    by auto
qed

lemma other_view_same:
  assumes "uc_ok lru linv u"
    and "\<forall>a'. a' < length (st_entries (uc_store u)) \<and> a' \<notin> cache_refs lru (sel_cache w u) \<longrightarrow>
      st_entries h' ! a' = st_entries (uc_store u) ! a'"
  shows "uc_view lru (other_cache w) (upd_cache w bc' h' u) = uc_view lru (other_cache w) u"
proof
  fix k
  have o: "cache_ok lru linv (sel_cache (other_cache w) u) (uc_store u)"
    and d: "cache_refs lru (sel_cache w u) \<inter> cache_refs lru (sel_cache (other_cache w) u) = {}"
    using assms(1) uc_ok_sel[of lru linv u w] by simp_all
  show "uc_view lru (other_cache w) (upd_cache w bc' h' u) k = uc_view lru (other_cache w) u k"
  proof (cases "lru_Peek lru (bc_c (sel_cache (other_cache w) u)) k")
    case (Some a)
    then have r: "a \<in> cache_refs lru (sel_cache (other_cache w) u)" by (auto simp: cache_refs_def ran_def)
    then have "st_entries h' ! a = st_entries (uc_store u) ! a"
      using assms(2) d cache_refs_bound[OF o r] by blast
    with Some show ?thesis by (simp add: uc_view_def cache_view_def)
  qed (simp add: uc_view_def cache_view_def)
qed

lemma AddBlock_ok:
  assumes "uc_ok lru linv u"
  shows "\<exists>u'. AddBlock lru u b = Ret u' \<and> uc_ok lru linv u' \<and> store_le (uc_store u) (uc_store u') \<and>
    (let w = getCacheWithPeek lru u (bw_Round b) in
       uc_view lru w u' (bw_Round b) = Some (spec_add b (uc_view lru w u (bw_Round b))) \<and>
       evict_le (bw_Round b) (uc_view lru w u) (uc_view lru w u') \<and>
       uc_view lru (other_cache w) u' = uc_view lru (other_cache w) u \<and>
       (\<forall>a ch. lru_Peek lru (bc_c (sel_cache w u)) (bw_Round b) = Some a \<and>
           be_WaitFor (st_entries (uc_store u) ! a) = Some ch \<longrightarrow> ch \<in> set (st_closed (uc_store u')))) \<and>
    uc_loads u' = uc_loads u"
proof -
  let ?w = "getCacheWithPeek lru u (bw_Round b)"
  have s: "store_ok (uc_store u)" "cache_ok lru linv (sel_cache ?w u) (uc_store u)"
    using assms uc_ok_sel[of lru linv u ?w] by simp_all
  obtain bc' h' where r: "addBlock lru (sel_cache ?w u) b (uc_store u) = Ret (bc', h')"
    and p: "store_ok h'" "cache_ok lru linv bc' h'" "store_le (uc_store u) h'"
      "cache_refs lru bc' \<subseteq> insert (length (st_entries (uc_store u))) (cache_refs lru (sel_cache ?w u))"
      "cache_view lru bc' h' (bw_Round b) = Some (spec_add b (cache_view lru (sel_cache ?w u) (uc_store u) (bw_Round b)))"
      "evict_le (bw_Round b) (cache_view lru (sel_cache ?w u) (uc_store u)) (cache_view lru bc' h')"
      "\<forall>a'. a' < length (st_entries (uc_store u)) \<and> a' \<notin> cache_refs lru (sel_cache ?w u) \<longrightarrow>
         st_entries h' ! a' = st_entries (uc_store u) ! a'"
      "\<forall>a ch. lru_Peek lru (bc_c (sel_cache ?w u)) (bw_Round b) = Some a \<and>
         be_WaitFor (st_entries (uc_store u) ! a) = Some ch \<longrightarrow> ch \<in> set (st_closed h')"
    using addBlock_ok[OF s, of b] by blast
  have "AddBlock lru u b = Ret (upd_cache ?w bc' h' u)" using r by (simp add: AddBlock_def Let_def)
  then show ?thesis
    using uc_ok_upd[OF assms p(1-4)] other_view_same[OF assms p(7)] p(3,5,6,8)
    by (simp add: Let_def) (simp add: uc_view_def)
qed

lemma PromiseBlock_ok:
  assumes "uc_ok lru linv u"
  shows "\<exists>a u'. PromiseBlock lru u r = Ret (a, u') \<and> uc_ok lru linv u' \<and> store_le (uc_store u) (uc_store u') \<and>
    (let w = getCacheWithPeek lru u r in
       uc_view lru w u' r = Some (spec_promise (uc_view lru w u r)) \<and>
       evict_le r (uc_view lru w u) (uc_view lru w u') \<and>
       uc_view lru (other_cache w) u' = uc_view lru (other_cache w) u) \<and>
    uc_loads u' = uc_loads u @ [r]"
proof -
  let ?w = "getCacheWithPeek lru u r"
  have s: "store_ok (uc_store u)" "cache_ok lru linv (sel_cache ?w u) (uc_store u)"
    using assms uc_ok_sel[of lru linv u ?w] by simp_all
  obtain a bc' h' where r: "promiseBlock lru (sel_cache ?w u) r (uc_store u) = Ret (a, bc', h')"
    and p: "store_ok h'" "cache_ok lru linv bc' h'" "store_le (uc_store u) h'"
      "cache_refs lru bc' \<subseteq> insert (length (st_entries (uc_store u))) (cache_refs lru (sel_cache ?w u))"
      "cache_view lru bc' h' r = Some (spec_promise (cache_view lru (sel_cache ?w u) (uc_store u) r))"
      "evict_le r (cache_view lru (sel_cache ?w u) (uc_store u)) (cache_view lru bc' h')"
      "\<forall>a'. a' < length (st_entries (uc_store u)) \<and> a' \<notin> cache_refs lru (sel_cache ?w u) \<longrightarrow>
         st_entries h' ! a' = st_entries (uc_store u) ! a'"
    using promiseBlock_ok[OF s, of r] by blast
  let ?u' = "(upd_cache ?w bc' h' u)\<lparr>uc_loads := uc_loads u @ [r]\<rparr>"
  have loads: "sel_cache w (v\<lparr>uc_loads := l\<rparr>) = sel_cache w v" "uc_store (v\<lparr>uc_loads := l\<rparr>) = uc_store v"
    for w l and v :: "'a UnifiedBlockCache" by (cases w; simp)+
  have "PromiseBlock lru u r = Ret (a, ?u')" using r by (simp add: PromiseBlock_def Let_def)
  moreover have "uc_ok lru linv ?u'" using uc_ok_upd[OF assms p(1-4)] by (simp add: uc_ok_def)
  ultimately show ?thesis
    using other_view_same[OF assms p(7)] p(3,5,6) by (simp add: Let_def) (simp add: uc_view_def loads)
qed

lemma IsBlockCached_ok:
  assumes "uc_ok lru linv u"
  shows "IsBlockCached lru u r = Ret (\<exists>w b e. uc_view lru w u r = Some (Some b, e))"
proof -
  have c: "cache_ok lru linv (uc_catchupCache u) (uc_store u)" "cache_ok lru linv (uc_archCache u) (uc_store u)"
    using assms by (simp_all add: uc_ok_def)
  show ?thesis
    by (simp add: IsBlockCached_def bc_IsBlockCached_ok[OF c(1)] bc_IsBlockCached_ok[OF c(2)] both_caches uc_view_def)
qed

section \<open>The calls in progress\<close>

lemma spec_get_block: "spec_get v = Some (Some x, k, e) \<longleftrightarrow> v = Some (Some x, None) \<and> k \<and> e = None"
  by (cases v rule: spec_get.cases) auto

lemma gb_lookups_cases:
  assumes "pc \<in> gb_lookups"
  obtains "pc = GB_Catchup1" | "pc = GB_Arch1" | "pc = GB_Catchup2" | "pc = GB_Arch2"
  using assms by (auto simp: gb_lookups_def)

lemma gb_next_ok:
  assumes "pc \<in> gb_lookups" "\<And>b. bw = Some b \<Longrightarrow> bw_Round b = r \<and> bw_Error b = None \<and> err = None"
  shows "call_ok h (r, gb_next r pc bw err)"
  using assms(1) by (cases rule: gb_lookups_cases) (use assms(2) in \<open>auto split: option.splits\<close>)

lemma gb_next_err_ok: "pc \<in> gb_lookups \<Longrightarrow> call_ok h (r, gb_next r pc None err)"
  by (rule gb_next_ok) auto

lemma cache_block_ok:
  assumes "store_ok h" "cache_ok lru linv bc h" "spec_get (cache_view lru bc h r) = Some (Some x, k, e)"
  shows "bw_Round x = r \<and> bw_Error x = None \<and> e = None"
proof -
  obtain a where a: "lru_Peek lru (bc_c bc) r = Some a" "be_B (st_entries h ! a) = Some x" "e = None"
    using assms(3) by (auto simp: cache_view_def spec_get_block)
  then have "a < length (st_entries h)" "be_Round (st_entries h ! a) = r"
    using assms(2) by (simp_all add: cache_ok_def)
  then show ?thesis using entries_ok_at[OF assms(1)] a by (fastforce simp: entry_ok_def)
qed

lemma gb_lookup_ok:
  assumes "uc_ok lru linv u" "pc \<in> gb_lookups"
  shows "\<exists>pc' u'. gb_lookup lru r pc u = Ret (pc', u') \<and> uc_ok lru linv u' \<and> uc_store u' = uc_store u \<and>
    call_ok (uc_store u) (r, pc') \<and> (\<forall>w. uc_view lru w u' = uc_view lru w u) \<and>
    (case spec_get (uc_view lru (gb_cache pc) u r) of
       Some (b, ok, e) \<Rightarrow> pc' = gb_next r pc b e
     | None \<Rightarrow> \<exists>a ch. pc' = GB_Waiting pc a ch)"
proof -
  let ?w = "gb_cache pc" and ?h = "uc_store u"
  have s: "store_ok ?h" "cache_ok lru linv (sel_cache ?w u) ?h"
    using assms(1) uc_ok_sel[of lru linv u ?w] by simp_all
  obtain res bc' where g: "getBlock_start lru (sel_cache ?w u) r ?h = Ret (res, bc')"
    "cache_ok lru linv bc' ?h" "cache_refs lru bc' = cache_refs lru (sel_cache ?w u)"
    "cache_view lru bc' ?h = cache_view lru (sel_cache ?w u) ?h"
    and c: "case spec_get (cache_view lru (sel_cache ?w u) ?h r) of
       Some (b, ok, e) \<Rightarrow> res = GB_Ret b ok e
     | None \<Rightarrow> (\<exists>a ch. res = GB_Wait a ch \<and> lru_Peek lru (bc_c (sel_cache ?w u)) r = Some a \<and>
                  be_WaitFor (st_entries ?h ! a) = Some ch)"
    using getBlock_start_ok[OF s, of r] by blast
  let ?u' = "upd_cache ?w bc' ?h u"
  have run: "gb_lookup lru r pc u = Ret (gb_resume r pc res, ?u')" using g(1) by (simp add: gb_lookup_def Let_def)
  have ok: "uc_ok lru linv ?u'" using assms(1) s(1) g(2,3) by (intro uc_ok_upd) auto
  have view: "uc_view lru w ?u' = uc_view lru w u" for w
  proof (cases "w = ?w")
    case False
    then have "w = other_cache ?w" by (cases w; cases ?w) simp_all
    then show ?thesis using other_view_same[OF assms(1), of ?w ?h bc'] by simp
  qed (simp add: uc_view_def g(4))
  have call: "call_ok ?h (r, gb_resume r pc res) \<and>
    (case spec_get (uc_view lru ?w u r) of
       Some (b, ok, e) \<Rightarrow> gb_resume r pc res = gb_next r pc b e
     | None \<Rightarrow> \<exists>a ch. gb_resume r pc res = GB_Waiting pc a ch)"
  proof (cases "spec_get (cache_view lru (sel_cache ?w u) ?h r)")
    case None
    then obtain a ch where "res = GB_Wait a ch" "lru_Peek lru (bc_c (sel_cache ?w u)) r = Some a"
      "be_WaitFor (st_entries ?h ! a) = Some ch" using c by auto
    then show ?thesis using s(2) assms(2) None by (simp add: cache_ok_def uc_view_def)
  next
    case (Some p)
    then obtain b k e where p: "spec_get (cache_view lru (sel_cache ?w u) ?h r) = Some (b, k, e)"
      by (cases p) auto
    then have "bw_Round x = r \<and> bw_Error x = None \<and> e = None" if "b = Some x" for x
      using cache_block_ok[OF s] that by blast
    then show ?thesis using c p gb_next_ok[OF assms(2)] by (simp add: uc_view_def)
  qed
  show ?thesis using run ok view call by auto
qed

lemma gb_step_ok:
  assumes "uc_ok lru linv u" "call_ok (uc_store u) (r, pc)"
  shows "\<exists>pc' u'. gb_step lru r pc u = Ret (pc', u') \<and> uc_ok lru linv u' \<and>
    store_le (uc_store u) (uc_store u') \<and> call_ok (uc_store u') (r, pc')"
proof (cases "pc \<in> gb_lookups")
  case True
  then have "gb_step lru r pc u = gb_lookup lru r pc u" by (cases rule: gb_lookups_cases) simp_all
  with gb_lookup_ok[OF assms(1) True, of r] show ?thesis by fastforce
next
  case False
  show ?thesis
  proof (cases "pc = GB_Promise")
    case True
    with PromiseBlock_ok[OF assms(1), of r] show ?thesis by fastforce
  next
    case neq: False
    then have "gb_step lru r pc u = Ret (pc, u)" using False by (cases pc) (simp_all add: gb_lookups_def)
    with assms show ?thesis by simp
  qed
qed

lemma gb_wake_ok:
  assumes "uc_ok lru linv u" "call_ok (uc_store u) (r, GB_Waiting pc a ch)"
  shows "gb_wake r pc a u =
      Ret (case be_Error (st_entries (uc_store u) ! a) of
             Some e \<Rightarrow> gb_next r pc None (Some e)
           | None \<Rightarrow> gb_next r pc (be_B (st_entries (uc_store u) ! a)) None)"
    and "call_ok (uc_store u) (r, ret (gb_wake r pc a u))"
proof -
  let ?e = "st_entries (uc_store u) ! a"
  have a: "a < length (st_entries (uc_store u))" "be_Round ?e = r" "pc \<in> gb_lookups" using assms(2) by simp_all
  have "entry_ok ?e" using assms(1) a(1) by (intro entries_ok_at) (simp_all add: uc_ok_def)
  then have b: "bw_Round b = r \<and> bw_Error b = None" if "be_B ?e = Some b" for b
    using that a(2) by (simp add: entry_ok_def)
  show *: "gb_wake r pc a u =
      Ret (case be_Error ?e of Some e \<Rightarrow> gb_next r pc None (Some e) | None \<Rightarrow> gb_next r pc (be_B ?e) None)"
    using a(1) by (simp add: gb_wake_def getBlock_woken_def entry_at_def split: option.splits)
  show "call_ok (uc_store u) (r, ret (gb_wake r pc a u))"
  proof (cases "be_Error ?e")
    case None
    then show ?thesis unfolding * using b by (simp add: gb_next_ok[OF a(3)])
  next
    case (Some e)
    then show ?thesis unfolding * by (simp add: gb_next_err_ok[OF a(3)])
  qed
qed

lemma gb_timeout_ok:
  assumes "uc_ok lru linv u" "pc \<in> gb_lookups"
  shows "\<exists>u'. gb_timeout lru r pc e u = Ret (gb_next r pc None (Some e), u') \<and> uc_ok lru linv u' \<and>
    store_le (uc_store u) (uc_store u') \<and> call_ok (uc_store u') (r, gb_next r pc None (Some e)) \<and>
    uc_loads u' = uc_loads u"
proof -
  let ?w = "gb_cache pc" and ?h = "uc_store u"
  have s: "store_ok ?h" "cache_ok lru linv (sel_cache ?w u) ?h"
    using assms(1) uc_ok_sel[of lru linv u ?w] by simp_all
  obtain bc' h' where g: "addBlock lru (sel_cache ?w u) (error_wrap r block_timeout) ?h = Ret (bc', h')"
    "store_ok h'" "cache_ok lru linv bc' h'" "store_le ?h h'"
    "cache_refs lru bc' \<subseteq> insert (length (st_entries ?h)) (cache_refs lru (sel_cache ?w u))"
    using addBlock_ok[OF s, of "error_wrap r block_timeout"] by blast
  have "gb_timeout lru r pc e u = Ret (gb_next r pc None (Some e), upd_cache ?w bc' h' u)"
    using g(1) by (simp add: gb_timeout_def getBlock_timeout_def Let_def)
  then show ?thesis
    using uc_ok_upd[OF assms(1) g(2-5)] g(4) gb_next_err_ok[OF assms(2)] by simp
qed

section \<open>Every reachable state\<close>

lemma uc_ok_store:
  assumes "uc_ok lru linv u" "store_ok h'" "store_le (uc_store u) h'"
  shows "uc_ok lru linv (u\<lparr>uc_store := h'\<rparr>)"
  using assms cache_ok_mono by (auto simp: uc_ok_def cache_refs_def)

lemma usys_ok_cache:
  assumes "usys_ok lru linv s" "uc_ok lru linv u'" "store_le (uc_store (us_cache s)) (uc_store u')"
  shows "usys_ok lru linv (s\<lparr>us_cache := u'\<rparr>)"
  using assms calls_ok_mono by (auto simp: usys_ok_def)

lemma usys_ok_call:
  assumes "usys_ok lru linv s" "uc_ok lru linv u'" "store_le (uc_store (us_cache s)) (uc_store u')"
    and "call_ok (uc_store u') c"
  shows "usys_ok lru linv (s\<lparr>us_cache := u', us_calls := (us_calls s)[i := c]\<rparr>)"
  using usys_ok_cache[OF assms(1-3)] assms(4) by (simp add: usys_ok_def list_all_upd)

lemma usys_call_at:
  "usys_ok lru linv s \<Longrightarrow> i < length (us_calls s) \<Longrightarrow> call_ok (uc_store (us_cache s)) (us_calls s ! i)"
  by (simp add: usys_ok_def list_all_length)

lemma ustep_ok:
  assumes "ustep lru l s s'" "usys_ok lru linv s"
  shows "usys_ok lru linv s'"
proof -
  have u: "uc_ok lru linv (us_cache s)" and h: "store_ok (uc_store (us_cache s))"
    using assms(2) by (simp_all add: usys_ok_def uc_ok_def)
  from assms(1) show ?thesis
  proof cases
    case (us_call r)
    then show ?thesis using assms(2) by (simp add: usys_ok_def)
  next
    case (us_add b u')
    then show ?thesis using AddBlock_ok[OF u, of b] assms(2) by (auto intro: usys_ok_cache)
  next
    case (us_promise r a u')
    then show ?thesis using PromiseBlock_ok[OF u, of r] assms(2) by (auto intro: usys_ok_cache)
  next
    case (us_deliver a b h')
    then show ?thesis
      using deliver_found_ok[OF h us_deliver(3,4)] assms(2) uc_ok_store[OF u] by (auto intro: usys_ok_cache)
  next
    case (us_rearm a h')
    then show ?thesis
      using promise_found_ok[OF h us_rearm(3)] assms(2) uc_ok_store[OF u] by (auto intro: usys_ok_cache)
  next
    case (us_run i r pc pc' u')
    then show ?thesis
      using gb_step_ok[OF u, of r pc] usys_call_at[OF assms(2) us_run(3)] assms(2) by (auto intro: usys_ok_call)
  next
    case (us_wake i r pc a ch pc')
    then have "call_ok (uc_store (us_cache s)) (r, pc')"
      using gb_wake_ok(2)[OF u, of r pc a ch] usys_call_at[OF assms(2) us_wake(3)] by simp
    then show ?thesis using us_wake(2) assms(2) usys_ok_call[OF assms(2) u store_le_refl, of "(r, pc')" i] by simp
  next
    case (us_timeout i r pc a ch e pc' u')
    then have "pc \<in> gb_lookups" using usys_call_at[OF assms(2) us_timeout(3)] by simp
    then show ?thesis
      using us_timeout gb_timeout_ok[OF u, of pc r e] assms(2) by (auto intro: usys_ok_call)
  qed
qed

end

text \<open>From the initial state on, with the capacity of both caches.\<close>

context lru_contract
begin

lemma New_ok: "uc_ok lru (\<lambda>c. linv c \<and> cap c = 1000) (New lru)"
  using new_inv new_empty
  by (auto simp: uc_ok_def New_def store_ok_empty cache_ok_def cache_refs_def CatchupSize_def ArchSize_def ran_def)

lemma New_uc_ok: "uc_ok lru linv (New lru)"
  using New_ok by (simp add: uc_ok_def cache_ok_def)

lemma ureach_ok: "ureach lru s \<Longrightarrow> usys_ok lru (\<lambda>c. linv c \<and> cap c = 1000) s"
proof (induction rule: ureach.induct)
  case ureach_init
  then show ?case by (simp add: usys_ok_def New_ok)
next
  case (ureach_step s l s')
  then show ?case using sized.ustep_ok by blast
qed

end

section \<open>A call of GetBlock ends\<close>

text \<open>How many parts of a call are left.\<close>

fun gb_rank :: "gb_pc \<Rightarrow> nat" where
  "gb_rank GB_Catchup1 = 9"
| "gb_rank GB_Arch1 = 7"
| "gb_rank GB_Promise = 5"
| "gb_rank GB_Catchup2 = 4"
| "gb_rank GB_Arch2 = 2"
| "gb_rank (GB_Waiting pc a ch) = gb_rank pc - 1"
| "gb_rank (GB_Done bw err) = 0"

lemma gb_next_rank: "pc \<in> gb_lookups \<Longrightarrow> gb_rank (gb_next r pc bw err) < gb_rank pc - 1"
  by (auto simp: gb_lookups_def)

definition gb_idle :: "gb_pc \<Rightarrow> bool" where
  "gb_idle pc \<longleftrightarrow> (case pc of GB_Waiting _ _ _ \<Rightarrow> True | GB_Done _ _ \<Rightarrow> True | _ \<Rightarrow> False)"

lemma gb_step_idle: "gb_idle pc \<Longrightarrow> gb_step lru r pc u = Ret (pc, u)"
  by (cases pc) (simp_all add: gb_idle_def)

lemma gb_run_idle: "gb_idle pc \<Longrightarrow> gb_run n lru r pc u = Ret (pc, u)"
  by (induction n) (simp_all add: gb_step_idle)

lemma gb_idle_cases: "\<not> gb_idle pc \<Longrightarrow> pc \<in> gb_lookups \<or> pc = GB_Promise"
  by (cases pc) (simp_all add: gb_idle_def gb_lookups_def)

lemma gb_lookup_step: "pc \<in> gb_lookups \<Longrightarrow> gb_step lru r pc u = gb_lookup lru r pc u"
  by (auto simp: gb_lookups_def)

lemma gb_rank_lookups: "pc \<in> gb_lookups \<Longrightarrow> 0 < gb_rank pc"
  by (auto simp: gb_lookups_def)

context lru_ops
begin

lemma gb_step_rank:
  assumes "uc_ok lru linv u" "\<not> gb_idle pc"
  shows "\<exists>pc' u'. gb_step lru r pc u = Ret (pc', u') \<and> gb_rank pc' < gb_rank pc \<and> uc_ok lru linv u' \<and>
    call_ok (uc_store u') (r, pc')"
proof (cases "pc \<in> gb_lookups")
  case True
  obtain pc' u' where l: "gb_lookup lru r pc u = Ret (pc', u')" "uc_ok lru linv u'" "uc_store u' = uc_store u"
    "call_ok (uc_store u) (r, pc')"
    "case spec_get (uc_view lru (gb_cache pc) u r) of
       Some (b, ok, e) \<Rightarrow> pc' = gb_next r pc b e | None \<Rightarrow> \<exists>a ch. pc' = GB_Waiting pc a ch"
    using gb_lookup_ok[OF assms(1) True, of r] by auto
  have "gb_rank pc' < gb_rank pc"
  proof (cases "spec_get (uc_view lru (gb_cache pc) u r)")
    case None
    then show ?thesis using l(5) gb_rank_lookups[OF True] by auto
  next
    case (Some p)
    then obtain b e where "pc' = gb_next r pc b e" using l(5) by (cases p) auto
    then show ?thesis using gb_next_rank[OF True, of r b e] by simp
  qed
  then show ?thesis using l(1-4) gb_lookup_step[OF True, of lru r u] by simp
next
  case False
  then have pc: "pc = GB_Promise" using assms(2) gb_idle_cases by blast
  then show ?thesis using PromiseBlock_ok[OF assms(1), of r] by fastforce
qed

lemma gb_run_ends:
  "uc_ok lru linv u \<Longrightarrow> call_ok (uc_store u) (r, pc) \<Longrightarrow> gb_rank pc \<le> n \<Longrightarrow>
     \<exists>pc' u'. gb_run n lru r pc u = Ret (pc', u') \<and> gb_idle pc' \<and> uc_ok lru linv u' \<and> call_ok (uc_store u') (r, pc')"
proof (induction n arbitrary: pc u)
  case 0
  then have "gb_idle pc"
    by (cases pc) (auto simp: gb_idle_def)
  with 0 show ?case by (simp add: gb_run_idle)
next
  case (Suc n)
  show ?case
  proof (cases "gb_idle pc")
    case True
    then show ?thesis using Suc.prems by (simp add: gb_run_idle del: gb_run.simps)
  next
    case False
    obtain pc1 u1 where s: "gb_step lru r pc u = Ret (pc1, u1)" "gb_rank pc1 < gb_rank pc" "uc_ok lru linv u1"
      "call_ok (uc_store u1) (r, pc1)" using gb_step_rank[OF Suc.prems(1) False] by blast
    have "gb_rank pc1 \<le> n" using s(2) Suc.prems(3) by simp
    from Suc.IH[OF s(3,4) this] s(1) show ?thesis by simp
  qed
qed

text \<open>A block in one of the caches is returned at once.\<close>

lemma gb_run_hit:
  assumes "uc_ok lru linv u"
    and "uc_view lru CatchupCache u r = Some (Some b, None) \<or>
         uc_view lru CatchupCache u r = None \<and> uc_view lru ArchCache u r = Some (Some b, None)"
  shows "\<exists>u'. gb_run 2 lru r GB_Catchup1 u = Ret (GB_Done (Some b) None, u') \<and>
    uc_store u' = uc_store u \<and> (\<forall>w. uc_view lru w u' = uc_view lru w u)"
proof -
  have L: "GB_Catchup1 \<in> gb_lookups" "GB_Arch1 \<in> gb_lookups" by (simp_all add: gb_lookups_def)
  obtain pc1 u1 where 1: "gb_lookup lru r GB_Catchup1 u = Ret (pc1, u1)" "uc_ok lru linv u1"
    "uc_store u1 = uc_store u" "\<forall>w. uc_view lru w u1 = uc_view lru w u"
    "case spec_get (uc_view lru CatchupCache u r) of
       Some (b, ok, e) \<Rightarrow> pc1 = gb_next r GB_Catchup1 b e | None \<Rightarrow> \<exists>a ch. pc1 = GB_Waiting GB_Catchup1 a ch"
    using gb_lookup_ok[OF assms(1) L(1), of r] by auto
  obtain pc2 u2 where 2: "gb_lookup lru r GB_Arch1 u1 = Ret (pc2, u2)"
    "uc_store u2 = uc_store u1" "\<forall>w. uc_view lru w u2 = uc_view lru w u1"
    "case spec_get (uc_view lru ArchCache u1 r) of
       Some (b, ok, e) \<Rightarrow> pc2 = gb_next r GB_Arch1 b e | None \<Rightarrow> \<exists>a ch. pc2 = GB_Waiting GB_Arch1 a ch"
    using gb_lookup_ok[OF 1(2) L(2), of r] by auto
  show ?thesis
  proof (cases "uc_view lru CatchupCache u r")
    case (Some p)
    then have "pc1 = GB_Done (Some b) None" using assms(2) 1(5) by simp
    then show ?thesis using 1(1,3,4) by (simp add: numeral_2_eq_2)
  next
    case None
    then have "pc1 = GB_Arch1" "pc2 = GB_Done (Some b) None" using assms(2) 1(4,5) 2(4) by simp_all
    then show ?thesis using 1(1,3,4) 2(1-3) by (simp add: numeral_2_eq_2)
  qed
qed

text \<open>
  A waiting call whose entry the cache still holds returns the block when it is delivered.
\<close>

lemma delivery_wakes:
  assumes u: "uc_ok lru linv u" and c: "call_ok (uc_store u) (r, GB_Waiting pc a ch)"
    and open_ch: "ch \<notin> set (st_closed (uc_store u))"
    and b: "bw_Round b = r" "bw_Error b = None"
    and held: "lru_Peek lru (bc_c (sel_cache (getCacheWithPeek lru u r) u)) r = Some a"
  shows "\<exists>u' b'. AddBlock lru u b = Ret u' \<and> ch \<in> set (st_closed (uc_store u')) \<and>
    gb_wake r pc a u' = Ret (GB_Done (Some b') None) \<and> bw_Round b' = r \<and>
    (be_B (st_entries (uc_store u) ! a) = None \<longrightarrow> b' = b)"
proof -
  let ?w = "getCacheWithPeek lru u r" and ?e = "st_entries (uc_store u) ! a"
  have a: "a < length (st_entries (uc_store u))" "be_WaitFor ?e = Some ch" "pc \<in> gb_lookups"
    using c open_ch by auto
  have ok: "entry_ok ?e" using u a(1) by (intro entries_ok_at) (simp_all add: uc_ok_def)
  then have ne: "be_Error ?e = None" using a(2) by (auto simp: entry_ok_def)
  let ?bc = "sel_cache ?w u" and ?h = "uc_store u"
  have s: "store_ok ?h" "cache_ok lru linv ?bc ?h" using u uc_ok_sel[of lru linv u ?w] by simp_all
  have held': "lru_Peek lru (bc_c ?bc) (bw_Round b) = Some a" using held b(1) by simp
  obtain bc' h' where r: "addBlock lru ?bc b ?h = Ret (bc', h')" "store_le ?h h'"
    "\<forall>a ch. lru_Peek lru (bc_c ?bc) (bw_Round b) = Some a \<and> be_WaitFor (st_entries ?h ! a) = Some ch \<longrightarrow>
       ch \<in> set (st_closed h')"
    using addBlock_ok[OF s, of b] by blast
  have e': "st_entries h' ! a = (merge_block b ?e)\<lparr>be_WaitFor := None\<rparr>"
    using addBlock_hit[OF s held' r(1)] .
  have add: "AddBlock lru u b = Ret (upd_cache ?w bc' h' u)" using r(1) b(1) by (simp add: AddBlock_def Let_def)
  have closed: "ch \<in> set (st_closed h')" using r(3) held' a(2) by blast
  have a': "a < length (st_entries h')" using a(1) r(2) by (simp add: store_le_def)
  let ?b' = "case be_B ?e of None \<Rightarrow> b | Some x \<Rightarrow> x"
  have "be_Error (st_entries h' ! a) = None" "be_B (st_entries h' ! a) = Some ?b'"
    using b(2) ne by (auto simp: e' merge_block_def split: option.splits)
  moreover have "gb_next r pc (Some ?b') None = GB_Done (Some ?b') None"
    using a(3) by (cases rule: gb_lookups_cases) simp_all
  ultimately have "gb_wake r pc a (upd_cache ?w bc' h' u) = Ret (GB_Done (Some ?b') None)"
    using a' by (simp add: gb_wake_def getBlock_woken_def entry_at_def)
  moreover have "bw_Round ?b' = r" using ok c b(1) by (simp add: entry_ok_def split: option.splits)
  ultimately show ?thesis using add closed by auto
qed

end

end
