(* ===== verification/Cache_Properties.thy ===== *)
theory Cache_Properties
  imports Unified_Cache
begin

text \<open>
  The properties of the block caches, for every LRU that meets its contract and every state
  that interleaved calls can reach. The lemmas of the first part are proved inside the
  contract; the theorems state them with the contract as a hypothesis, and the witnesses run
  them on the bounded list of theory \<open>LRU\<close>.
\<close>

section \<open>Under the contract of the LRU\<close>

context lru_contract
begin

lemma reach_uc: "ureach lru s \<Longrightarrow> uc_ok lru (\<lambda>c. linv c \<and> cap c = 1000) (us_cache s)"
  using ureach_ok by (simp add: usys_ok_def)

lemma reach_no_panic_ops:
  assumes "ureach lru s"
  shows "go_ok (AddBlock lru (us_cache s) b)" "go_ok (PromiseBlock lru (us_cache s) r)"
    "go_ok (IsBlockCached lru (us_cache s) r)"
proof -
  note u = reach_uc[OF assms]
  show "go_ok (AddBlock lru (us_cache s) b)" using sized.AddBlock_ok[OF u, of b] by (auto simp: go_ok_iff)
  show "go_ok (PromiseBlock lru (us_cache s) r)" using sized.PromiseBlock_ok[OF u, of r] by (auto simp: go_ok_iff)
  show "go_ok (IsBlockCached lru (us_cache s) r)" using sized.IsBlockCached_ok[OF u] by simp
qed

lemma reach_no_panic_calls:
  assumes "ureach lru s" "(r, pc) \<in> set (us_calls s)"
  shows "go_ok (gb_step lru r pc (us_cache s))"
    "pc = GB_Waiting pc' a ch \<Longrightarrow> go_ok (gb_wake r pc' a (us_cache s)) \<and> go_ok (gb_timeout lru r pc' e (us_cache s))"
proof -
  note u = reach_uc[OF assms(1)]
  have c: "call_ok (uc_store (us_cache s)) (r, pc)"
    using ureach_ok[OF assms(1)] assms(2) by (simp add: usys_ok_def list_all_iff)
  show "go_ok (gb_step lru r pc (us_cache s))" using sized.gb_step_ok[OF u c] by (auto simp: go_ok_iff)
  assume pc: "pc = GB_Waiting pc' a ch"
  then have "pc' \<in> gb_lookups" using c by simp
  with sized.gb_wake_ok(1)[OF u c[unfolded pc]] sized.gb_timeout_ok[OF u]
  show "go_ok (gb_wake r pc' a (us_cache s)) \<and> go_ok (gb_timeout lru r pc' e (us_cache s))"
    by (metis go_ok.simps(2))
qed

lemma reach_call_ok:
  assumes "ureach lru s" "i < length (us_calls s)" "us_calls s ! i = (r, pc)"
  shows "call_ok (uc_store (us_cache s)) (r, pc)"
  using sized.usys_call_at[OF ureach_ok[OF assms(1)] assms(2)] assms(3) by simp

lemma reach_bounded:
  assumes "ureach lru s"
  shows "finite (dom (uc_view lru w (us_cache s))) \<and> card (dom (uc_view lru w (us_cache s))) \<le> 1000"
proof -
  let ?c = "bc_c (sel_cache w (us_cache s))"
  have "linv ?c \<and> cap ?c = 1000"
    using reach_uc[OF assms] by (cases w) (simp_all add: uc_ok_def cache_ok_def)
  moreover have "dom (uc_view lru w (us_cache s)) = dom (lru_Peek lru ?c)"
    by (auto simp: uc_view_def cache_view_def dom_def)
  ultimately show ?thesis using bounded[of ?c] by simp
qed

lemma reach_view_round:
  assumes "ureach lru s" "uc_view lru w (us_cache s) r = Some (Some b, e)"
  shows "bw_Round b = r \<and> bw_Error b = None"
proof -
  let ?h = "uc_store (us_cache s)"
  have ok: "store_ok ?h" "cache_ok lru (\<lambda>c. linv c \<and> cap c = 1000) (sel_cache w (us_cache s)) ?h"
    using reach_uc[OF assms(1)] uc_ok_sel[of lru _ "us_cache s" w] by auto
  obtain a where a: "lru_Peek lru (bc_c (sel_cache w (us_cache s))) r = Some a" "be_B (st_entries ?h ! a) = Some b"
    using assms(2) by (auto simp: uc_view_def cache_view_def)
  then have "a < length (st_entries ?h)" "be_Round (st_entries ?h ! a) = r" using ok(2) by (auto simp: cache_ok_def)
  then show ?thesis using entries_ok_at[OF ok(1)] a(2) by (fastforce simp: entry_ok_def)
qed

lemma add_then_get:
  assumes "ureach lru s" "bw_Error b = None" "\<forall>w. uc_view lru w (us_cache s) (bw_Round b) = None"
  shows "\<exists>u' u''. AddBlock lru (us_cache s) b = Ret u' \<and> IsBlockCached lru u' (bw_Round b) = Ret True \<and>
    gb_run 2 lru (bw_Round b) GB_Catchup1 u' = Ret (GB_Done (Some b) None, u'')"
proof -
  let ?r = "bw_Round b" let ?w = "getCacheWithPeek lru (us_cache s) ?r"
  obtain u' where u': "AddBlock lru (us_cache s) b = Ret u'" "uc_ok lru (\<lambda>c. linv c \<and> cap c = 1000) u'"
    "uc_view lru ?w u' ?r = Some (spec_add b (uc_view lru ?w (us_cache s) ?r))"
    "uc_view lru (other_cache ?w) u' = uc_view lru (other_cache ?w) (us_cache s)"
    using sized.AddBlock_ok[OF reach_uc[OF assms(1)], of b] by (auto simp: Let_def)
  have v: "uc_view lru ?w u' ?r = Some (Some b, None)" "uc_view lru (other_cache ?w) u' ?r = None"
    using u'(3,4) assms(2,3) by simp_all
  then have "uc_view lru CatchupCache u' ?r = Some (Some b, None) \<or>
      uc_view lru CatchupCache u' ?r = None \<and> uc_view lru ArchCache u' ?r = Some (Some b, None)"
    by (cases ?w) auto
  with sized.gb_run_hit[OF u'(2)] have "\<exists>u''. gb_run 2 lru ?r GB_Catchup1 u' = Ret (GB_Done (Some b) None, u'')"
    by blast
  moreover have "IsBlockCached lru u' ?r = Ret True" using sized.IsBlockCached_ok[OF u'(2)] v(1) by simp blast
  ultimately show ?thesis using u'(1) by blast
qed

end

section \<open>A run for the witnesses\<close>

text \<open>A block of round 7, and the state in which one call waits for it.\<close>

definition demo_block :: BlockWrap where
  "demo_block = \<lparr>bw_Round = 7, bw_BlockMsgPack = [1], bw_Block = None, bw_BlockJsonIdx = ''{}'',
     bw_BlockJsonNode = ''{}'', bw_Src = ''n1'', bw_CachedAt = 0, bw_Error = None\<rparr>"

definition demo_waiting :: "lru_list usys" where
  "demo_waiting =
     \<lparr>us_cache = \<lparr>uc_catchupCache = \<lparr>bc_c = (1000, [(7, 0)]), bc_last = 0, bc_name = ''catchup''\<rparr>,
                   uc_archCache = \<lparr>bc_c = (1000, []), bc_last = 0, bc_name = ''archive''\<rparr>,
                   uc_store = \<lparr>st_entries = [\<lparr>be_B = None, be_WaitFor = Some 0, be_Round = 7, be_Error = None\<rparr>],
                               st_nchan = 1, st_closed = []\<rparr>,
                   uc_loads = [7]\<rparr>,
      us_calls = [(7, GB_Waiting GB_Catchup2 0 0)]\<rparr>"

lemmas cache_eval = lru_list_ops_def lrul_New_def lrul_Peek_def lrul_Get_def lrul_PeekOrAdd_def
  New_def CatchupSize_def ArchSize_def empty_store_def PromiseBlock_def AddBlock_def getCacheWithPeek_def
  IsBlockPromised_def promiseBlock_def addBlock_def make_chan_def new_entry_def gb_lookup_def getBlock_start_def
  entry_at_def set_entry_def deliver_found_def merge_block_def entry_of_block_def close_chan_def
  gb_wake_def getBlock_woken_def IsBlockCached_def bc_IsBlockCached_def

definition demo_at :: "gb_pc \<Rightarrow> lru_list usys" where
  "demo_at pc = \<lparr>us_cache = New lru_list_ops, us_calls = [(7, pc)]\<rparr>"

lemma demo_lookup_miss:
  "gb_lookup lru_list_ops 7 GB_Catchup1 (New lru_list_ops) = Ret (GB_Arch1, New lru_list_ops)"
  "gb_lookup lru_list_ops 7 GB_Arch1 (New lru_list_ops) = Ret (GB_Promise, New lru_list_ops)"
  by (simp_all add: cache_eval)

lemma demo_promised:
  "gb_step lru_list_ops 7 GB_Promise (New lru_list_ops) = Ret (GB_Catchup2, us_cache demo_waiting)"
  "gb_lookup lru_list_ops 7 GB_Catchup2 (us_cache demo_waiting) =
     Ret (GB_Waiting GB_Catchup2 0 0, us_cache demo_waiting)"
  by (simp_all add: cache_eval demo_waiting_def)

lemma demo_init: "ureach lru_list_ops \<lparr>us_cache = New lru_list_ops, us_calls = []\<rparr>"
  by (rule ureach_init)

lemma demo_reach: "ureach lru_list_ops demo_waiting"
proof -
  have run: "ureach lru_list_ops \<lparr>us_cache = u', us_calls = [(7, pc')]\<rparr>"
    if "ureach lru_list_ops \<lparr>us_cache = u, us_calls = [(7, pc)]\<rparr>" "gb_step lru_list_ops 7 pc u = Ret (pc', u')"
    for pc pc' u u'
    using ureach_step[OF that(1) us_run[of 0 _ 7 pc lru_list_ops pc' u']] that(2) by simp
  have "ureach lru_list_ops (demo_at GB_Catchup1)"
    using ureach_step[OF demo_init us_call[of _ _ 7]] by (simp add: demo_at_def)
  then have "ureach lru_list_ops (demo_at GB_Arch1)"
    unfolding demo_at_def by (rule run) (simp add: demo_lookup_miss)
  then have "ureach lru_list_ops (demo_at GB_Promise)"
    unfolding demo_at_def by (rule run) (simp add: demo_lookup_miss)
  then have "ureach lru_list_ops \<lparr>us_cache = us_cache demo_waiting, us_calls = [(7, GB_Catchup2)]\<rparr>"
    unfolding demo_at_def by (rule run) (simp only: demo_promised)
  then have "ureach lru_list_ops \<lparr>us_cache = us_cache demo_waiting, us_calls = [(7, GB_Waiting GB_Catchup2 0 0)]\<rparr>"
    by (rule run) (simp add: demo_promised)
  then show ?thesis by (simp add: demo_waiting_def)
qed

text \<open>The block arrives and the call returns it.\<close>

definition demo_done :: "lru_list usys" where
  "demo_done =
     \<lparr>us_cache = ret (AddBlock lru_list_ops (us_cache demo_waiting) demo_block),
      us_calls = [(7, GB_Done (Some demo_block) None)]\<rparr>"

lemma demo_done_reach: "ureach lru_list_ops demo_done"
proof -
  let ?u = "ret (AddBlock lru_list_ops (us_cache demo_waiting) demo_block)"
  have add: "AddBlock lru_list_ops (us_cache demo_waiting) demo_block = Ret ?u"
    and wake: "gb_wake 7 GB_Catchup2 0 ?u = Ret (GB_Done (Some demo_block) None)"
    and closed: "0 \<in> set (st_closed (uc_store ?u))"
    by (simp_all add: cache_eval demo_waiting_def demo_block_def)
  have "ureach lru_list_ops (demo_waiting\<lparr>us_cache := ?u\<rparr>)" using ureach_step[OF demo_reach us_add[OF add]] .
  then have "ureach lru_list_ops \<lparr>us_cache = ?u, us_calls = [(7, GB_Waiting GB_Catchup2 0 0)]\<rparr>"
    by (simp add: demo_waiting_def)
  from ureach_step[OF this us_wake[of 0 _ 7 GB_Catchup2 0 0 "GB_Done (Some demo_block) None"]] wake closed
  show ?thesis by (simp add: demo_done_def)
qed

definition demo_last :: "u64 \<Rightarrow> lru_list UnifiedBlockCache" where
  "demo_last l = (New lru_list_ops)\<lparr>uc_catchupCache := \<lparr>bc_c = (1000, []), bc_last = l, bc_name = ''catchup''\<rparr>\<rparr>"

section \<open>Properties\<close>

text \<open>
  C6. In every reachable state no operation on the caches panics: no channel is closed twice
  and no entry is missing, whatever is delivered or promised next and whichever waiting call
  is woken or times out.
\<close>

theorem cache_never_panics:
  assumes "lru_contract lru linv cap" "ureach lru s"
  shows "go_ok (AddBlock lru (us_cache s) b) \<and> go_ok (PromiseBlock lru (us_cache s) r) \<and>
    go_ok (IsBlockCached lru (us_cache s) r) \<and>
    ((r', pc) \<in> set (us_calls s) \<longrightarrow> go_ok (gb_step lru r' pc (us_cache s))) \<and>
    ((r', GB_Waiting pc a ch) \<in> set (us_calls s) \<longrightarrow>
       go_ok (gb_wake r' pc a (us_cache s)) \<and> go_ok (gb_timeout lru r' pc e (us_cache s)))"
  using lru_contract.reach_no_panic_ops[OF assms] lru_contract.reach_no_panic_calls[OF assms] by blast

theorem cache_never_panics_witness:
  "go_ok (AddBlock lru_list_ops (us_cache demo_waiting) demo_block) \<and>
   go_ok (gb_wake 7 GB_Catchup2 0 (us_cache demo_waiting))"
  using cache_never_panics[OF lrul.lru_contract_axioms demo_reach, of demo_block 0 7 GB_Catchup2 0 0]
  by (simp add: demo_waiting_def)

text \<open>
  A call of \<open>GetBlock\<close> that has returned gave either a block of the round that was asked
  for, without an error, or an error; it never gives neither.
\<close>

theorem GetBlock_result:
  assumes "lru_contract lru linv cap" "ureach lru s"
    and "i < length (us_calls s)" "us_calls s ! i = (r, GB_Done bw err)"
  shows "(\<exists>b. bw = Some b \<and> err = None \<and> bw_Round b = r \<and> bw_Error b = None) \<or> (\<exists>e. bw = None \<and> err = Some e)"
  using lru_contract.reach_call_ok[OF assms] by (auto split: option.splits)

theorem GetBlock_result_witness:
  "bw_Round demo_block = 7 \<and> us_calls demo_done ! 0 = (7, GB_Done (Some demo_block) None)"
  using GetBlock_result[OF lrul.lru_contract_axioms demo_done_reach, of 0 7 "Some demo_block" None]
  by (simp add: demo_done_def)

text \<open>
  C9. No waiter is lost: the channel of a blocked call is closed, or the entry it came from
  still holds it and the next delivery to that entry, a block or an error, closes it.
\<close>

theorem waiter_not_lost:
  assumes "lru_contract lru linv cap" "ureach lru s"
    and "i < length (us_calls s)" "us_calls s ! i = (r, GB_Waiting pc a ch)"
  shows "ch \<in> set (st_closed (uc_store (us_cache s))) \<or>
    (\<forall>b. bw_Round b = r \<longrightarrow>
       (\<exists>h'. deliver_found a b (uc_store (us_cache s)) = Ret h' \<and> ch \<in> set (st_closed h')))"
proof -
  have c: "call_ok (uc_store (us_cache s)) (r, GB_Waiting pc a ch)"
    using lru_contract.reach_call_ok[OF assms] .
  have h: "store_ok (uc_store (us_cache s))"
    using lru_contract.reach_uc[OF assms(1,2)] by (simp add: uc_ok_def)
  show ?thesis using c deliver_found_ok[OF h, of a] by fastforce
qed

theorem waiter_not_lost_witness:
  "0 \<in> set (st_closed (uc_store (us_cache demo_waiting))) \<or>
    (\<forall>b. bw_Round b = 7 \<longrightarrow>
       (\<exists>h'. deliver_found 0 b (uc_store (us_cache demo_waiting)) = Ret h' \<and> 0 \<in> set (st_closed h')))"
  using waiter_not_lost[OF lrul.lru_contract_axioms demo_reach, of 0 7 GB_Catchup2 0 0]
  by (simp add: demo_waiting_def)



text \<open>
  C7. \<open>AddBlock\<close> implements the abstract cache: for its round the first good block wins, an error is
  recorded only while there is neither, nothing else changes but for at most one evicted
  round, and the cache that was not selected is not touched.
\<close>

theorem AddBlock_refines:
  assumes "lru_contract lru linv cap" "ureach lru s"
  shows "\<exists>u'. AddBlock lru (us_cache s) b = Ret u' \<and> uc_loads u' = uc_loads (us_cache s) \<and>
    (let w = getCacheWithPeek lru (us_cache s) (bw_Round b) in
       uc_view lru w u' (bw_Round b) = Some (spec_add b (uc_view lru w (us_cache s) (bw_Round b))) \<and>
       evict_le (bw_Round b) (uc_view lru w (us_cache s)) (uc_view lru w u') \<and>
       uc_view lru (other_cache w) u' = uc_view lru (other_cache w) (us_cache s))"
proof -
  note ops = lru_contract.axioms(1)[OF assms(1)]
  have "uc_ok lru linv (us_cache s)"
    using lru_contract.reach_uc[OF assms] by (simp add: uc_ok_def cache_ok_def)
  from lru_ops.AddBlock_ok[OF ops this, of b] show ?thesis by (auto simp: Let_def)
qed

theorem AddBlock_refines_witness:
  "\<exists>u'. AddBlock lru_list_ops (us_cache demo_waiting) demo_block = Ret u' \<and>
     uc_view lru_list_ops CatchupCache u' 7 = Some (Some demo_block, None)"
proof -
  have w: "getCacheWithPeek lru_list_ops (us_cache demo_waiting) (bw_Round demo_block) = CatchupCache"
    by (simp add: cache_eval demo_waiting_def demo_block_def)
  have v: "uc_view lru_list_ops CatchupCache (us_cache demo_waiting) (bw_Round demo_block) = Some (None, None)"
    by (simp add: uc_view_def cache_view_def demo_waiting_def demo_block_def lru_list_ops_def lrul_Peek_def)
  have b: "bw_Round demo_block = 7" "bw_Error demo_block = None" by (simp_all add: demo_block_def)
  show ?thesis
    using AddBlock_refines[OF lrul.lru_contract_axioms demo_reach, of demo_block]
    unfolding Let_def w v by (auto simp: b)
qed

text \<open>
  C8. \<open>PromiseBlock\<close> implements the abstract cache: it makes the round known, drops the error of
  an earlier load and keeps a block that is there, and starts exactly one load of that round.
\<close>

theorem PromiseBlock_refines:
  assumes "lru_contract lru linv cap" "ureach lru s"
  shows "\<exists>a u'. PromiseBlock lru (us_cache s) r = Ret (a, u') \<and> uc_loads u' = uc_loads (us_cache s) @ [r] \<and>
    (let w = getCacheWithPeek lru (us_cache s) r in
       uc_view lru w u' r = Some (spec_promise (uc_view lru w (us_cache s) r)) \<and>
       evict_le r (uc_view lru w (us_cache s)) (uc_view lru w u') \<and>
       uc_view lru (other_cache w) u' = uc_view lru (other_cache w) (us_cache s))"
proof -
  note ops = lru_contract.axioms(1)[OF assms(1)]
  have "uc_ok lru linv (us_cache s)"
    using lru_contract.reach_uc[OF assms] by (simp add: uc_ok_def cache_ok_def)
  from lru_ops.PromiseBlock_ok[OF ops this, of r] show ?thesis by (auto simp: Let_def)
qed

theorem PromiseBlock_refines_witness:
  "\<exists>a u'. PromiseBlock lru_list_ops (us_cache demo_waiting) 9 = Ret (a, u') \<and> uc_loads u' = [7, 9]"
  using PromiseBlock_refines[OF lrul.lru_contract_axioms demo_reach, of 9]
  by (auto simp: demo_waiting_def)

text \<open>
  C10. A call of \<open>GetBlock\<close> makes progress: in a reachable state it runs to a point where it has
  returned or waits, in at most nine of its own steps, and waking it or ending its context
  strictly reduces what is left of it.
\<close>

theorem GetBlock_ends:
  assumes "lru_contract lru linv cap" "ureach lru s"
  shows "(\<exists>pc' u'. gb_run 9 lru r GB_Catchup1 (us_cache s) = Ret (pc', u') \<and> gb_idle pc') \<and>
    ((r', GB_Waiting pc a ch) \<in> set (us_calls s) \<longrightarrow>
       (\<exists>pc'. gb_wake r' pc a (us_cache s) = Ret pc' \<and> gb_rank pc' < gb_rank (GB_Waiting pc a ch)) \<and>
       (\<exists>pc' u'. gb_timeout lru r' pc e (us_cache s) = Ret (pc', u') \<and> gb_rank pc' < gb_rank (GB_Waiting pc a ch)))"
proof (intro conjI impI)
  note ops = lru_contract.axioms(1)[OF assms(1)]
  have u: "uc_ok lru linv (us_cache s)"
    using lru_contract.reach_uc[OF assms] by (simp add: uc_ok_def cache_ok_def)
  show "\<exists>pc' u'. gb_run 9 lru r GB_Catchup1 (us_cache s) = Ret (pc', u') \<and> gb_idle pc'"
    using lru_ops.gb_run_ends[OF ops u, of r GB_Catchup1 9] by auto
  assume "(r', GB_Waiting pc a ch) \<in> set (us_calls s)"
  then have c: "call_ok (uc_store (us_cache s)) (r', GB_Waiting pc a ch)"
    using lru_contract.ureach_ok[OF assms] by (auto simp: usys_ok_def list_all_iff)
  then have pc: "pc \<in> gb_lookups" by simp
  show "\<exists>pc'. gb_wake r' pc a (us_cache s) = Ret pc' \<and> gb_rank pc' < gb_rank (GB_Waiting pc a ch)"
    using lru_ops.gb_wake_ok(1)[OF ops u c] gb_next_rank[OF pc]
    by (cases "be_Error (st_entries (uc_store (us_cache s)) ! a)") simp_all
  show "\<exists>pc' u'. gb_timeout lru r' pc e (us_cache s) = Ret (pc', u') \<and> gb_rank pc' < gb_rank (GB_Waiting pc a ch)"
    using lru_ops.gb_timeout_ok[OF ops u pc, of r' e] gb_next_rank[OF pc] by auto
qed

theorem GetBlock_ends_witness:
  "\<exists>pc'. gb_wake 7 GB_Catchup2 0 (us_cache demo_waiting) = Ret pc' \<and> gb_rank pc' < 3"
  using GetBlock_ends[OF lrul.lru_contract_axioms demo_reach, of 0 7 GB_Catchup2 0 0]
  by (simp add: demo_waiting_def)

text \<open>
  C12. Round trip: a block delivered without an error for a round that neither cache knows is
  reported as cached, and \<open>GetBlock\<close> returns exactly that block without blocking.
\<close>

theorem AddBlock_GetBlock:
  assumes "lru_contract lru linv cap" "ureach lru s"
    and "bw_Error b = None" "\<forall>w. uc_view lru w (us_cache s) (bw_Round b) = None"
  shows "\<exists>u' u''. AddBlock lru (us_cache s) b = Ret u' \<and> IsBlockCached lru u' (bw_Round b) = Ret True \<and>
    gb_run 2 lru (bw_Round b) GB_Catchup1 u' = Ret (GB_Done (Some b) None, u'')"
  using lru_contract.add_then_get[OF assms] .

theorem AddBlock_GetBlock_witness:
  "\<exists>u' u''. AddBlock lru_list_ops (New lru_list_ops) demo_block = Ret u' \<and>
     IsBlockCached lru_list_ops u' (bw_Round demo_block) = Ret True \<and>
     gb_run 2 lru_list_ops (bw_Round demo_block) GB_Catchup1 u' = Ret (GB_Done (Some demo_block) None, u'')"
proof -
  have "uc_view lru_list_ops w (New lru_list_ops) k = None" for w k
    by (cases w) (simp_all add: uc_view_def cache_view_def cache_eval)
  then show ?thesis
    using AddBlock_GetBlock[OF lrul.lru_contract_axioms demo_init, of demo_block]
    by (simp add: demo_block_def)
qed

text \<open>
  C14. Both caches stay within their size: at most 1000 rounds each, and a block is only ever
  found under its own round.
\<close>

theorem cache_bounded:
  assumes "lru_contract lru linv cap" "ureach lru s"
  shows "finite (dom (uc_view lru w (us_cache s))) \<and> card (dom (uc_view lru w (us_cache s))) \<le> 1000 \<and>
    (\<forall>r b e. uc_view lru w (us_cache s) r = Some (Some b, e) \<longrightarrow> bw_Round b = r \<and> bw_Error b = None)"
  using lru_contract.reach_bounded[OF assms] lru_contract.reach_view_round[OF assms] by blast

theorem cache_bounded_witness:
  "card (dom (uc_view lru_list_ops CatchupCache (us_cache demo_waiting))) \<le> 1000"
  using cache_bounded[OF lrul.lru_contract_axioms demo_reach] by blast

text \<open>
  C15. Which cache a round goes to: round 0 and every round the archive cache knows go to the archive; otherwise the
  recent rounds go to the catchup cache: all while it has no block, and with a last round of at least 1000 those
  less than 1000 behind it. With a last round below 1000 the difference
  wraps around, and every round except the topmost ones goes to the archive.
\<close>

theorem getCacheWithPeek_cases:
  "getCacheWithPeek lru u 0 = ArchCache \<and>
   (lru_Peek lru (bc_c (uc_archCache u)) r \<noteq> None \<longrightarrow> getCacheWithPeek lru u r = ArchCache) \<and>
   (r \<noteq> 0 \<and> lru_Peek lru (bc_c (uc_archCache u)) r = None \<longrightarrow>
      (bc_last (uc_catchupCache u) = 0 \<longrightarrow> getCacheWithPeek lru u r = CatchupCache) \<and>
      (1000 \<le> bc_last (uc_catchupCache u) \<longrightarrow>
         (getCacheWithPeek lru u r = CatchupCache \<longleftrightarrow> unat r + 1000 > unat (bc_last (uc_catchupCache u)))) \<and>
      (0 < bc_last (uc_catchupCache u) \<and> bc_last (uc_catchupCache u) < 1000 \<longrightarrow>
         (getCacheWithPeek lru u r = CatchupCache \<longleftrightarrow>
            unat r + 1000 > 2 ^ 64 + unat (bc_last (uc_catchupCache u)))))"
proof -
  let ?l = "bc_last (uc_catchupCache u)"
  have sub: "unat (?l - 1000) = (if 1000 \<le> unat ?l then unat ?l - 1000 else unat ?l + 2 ^ 64 - 1000)"
    by (simp add: unat_sub_if')
  have gc: "getCacheWithPeek lru u r = (if ?l = 0 \<or> unat (?l - 1000) < unat r then CatchupCache else ArchCache)"
    if "r \<noteq> 0" "lru_Peek lru (bc_c (uc_archCache u)) r = None"
    using that by (simp add: getCacheWithPeek_def IsBlockPromised_def CatchupSize_def word_less_nat_alt unat_gt_0)
  have big: "unat (?l - 1000) < unat r \<longleftrightarrow> unat r + 1000 > unat ?l" "?l \<noteq> 0" if "1000 \<le> ?l"
    using that sub by (auto simp: word_le_nat_alt)
  have small: "unat (?l - 1000) < unat r \<longleftrightarrow> unat r + 1000 > 2 ^ 64 + unat ?l" "?l \<noteq> 0"
    if "0 < ?l" "?l < 1000"
    using that sub by (auto simp: word_less_nat_alt)
  show ?thesis
  proof (intro conjI impI)
    show "getCacheWithPeek lru u 0 = ArchCache" by (simp add: getCacheWithPeek_def)
    show "getCacheWithPeek lru u r = ArchCache" if "lru_Peek lru (bc_c (uc_archCache u)) r \<noteq> None"
      using that by (simp add: getCacheWithPeek_def IsBlockPromised_def)
  qed (use gc big small in simp_all)
qed

theorem getCacheWithPeek_cases_witness:
  "getCacheWithPeek lru_list_ops (demo_last 5000) 4001 = CatchupCache \<and>
   getCacheWithPeek lru_list_ops (demo_last 5000) 4000 = ArchCache \<and>
   getCacheWithPeek lru_list_ops (demo_last 999) 998 = ArchCache"
proof -
  have p: "lru_Peek lru_list_ops (bc_c (uc_archCache (demo_last l))) r = None \<and>
    bc_last (uc_catchupCache (demo_last l)) = l" for l r
    by (simp add: demo_last_def cache_eval)
  have 1: "getCacheWithPeek lru_list_ops (demo_last 5000) 4001 = CatchupCache"
    using getCacheWithPeek_cases[of lru_list_ops "demo_last 5000" 4001] p[of 5000 4001] by simp
  have 2: "getCacheWithPeek lru_list_ops (demo_last 5000) 4000 \<noteq> CatchupCache"
    using getCacheWithPeek_cases[of lru_list_ops "demo_last 5000" 4000] p[of 5000 4000] by simp
  have 3: "getCacheWithPeek lru_list_ops (demo_last 999) 998 \<noteq> CatchupCache"
    using getCacheWithPeek_cases[of lru_list_ops "demo_last 999" 998] p[of 999 998] by simp
  have "w = ArchCache" if "w \<noteq> CatchupCache" for w using that by (cases w) simp_all
  with 1 2 3 show ?thesis by blast
qed

end
