(* ===== verification/Provenance.thy ===== *)
theory Provenance
  imports Cache_Properties
begin

text \<open>
  Where a block comes from: every block in the store, and hence every block that a call of \<open>GetBlock\<close>
  returns, is one of those that were delivered to the cache. No operation of the cache makes a
  block up, changes one or takes one from an entry of another round.
\<close>

section \<open>The blocks of a store\<close>

definition store_blocks :: "store \<Rightarrow> BlockWrap set" where
  "store_blocks h = {b. \<exists>e \<in> set (st_entries h). be_B e = Some b}"

lemma store_blocks_simps [simp]:
  "store_blocks empty_store = {}"
  "store_blocks (h\<lparr>st_closed := cs\<rparr>) = store_blocks h"
  "store_blocks (snd (make_chan h)) = store_blocks h"
  "store_blocks (snd (new_entry e h)) = store_blocks h \<union> set_option (be_B e)"
  by (auto simp: store_blocks_def empty_store_def make_chan_def new_entry_def split: option.splits)

lemma store_blocks_set_entry: "store_blocks (set_entry a e h) \<subseteq> store_blocks h \<union> set_option (be_B e)"
  using set_update_subset_insert[of "st_entries h" a e] by (fastforce simp: store_blocks_def)

lemma store_blocks_at: "a < length (st_entries h) \<Longrightarrow> be_B (st_entries h ! a) = Some b \<Longrightarrow> b \<in> store_blocks h"
  by (auto simp: store_blocks_def)

section \<open>The operations\<close>

text \<open>The block that a delivery brings: none when it carries an error.\<close>

definition brings :: "BlockWrap \<Rightarrow> BlockWrap set" where
  "brings b = (if bw_Error b = None then {b} else {})"

lemma merge_block_brings: "set_option (be_B (merge_block b e)) \<subseteq> set_option (be_B e) \<union> brings b"
  by (auto simp: merge_block_def brings_def)

lemma promise_found_blocks:
  assumes "promise_found a h = Ret h'"
  shows "store_blocks h' \<subseteq> store_blocks h"
proof -
  let ?e = "st_entries h ! a"
  have a: "a < length (st_entries h)" using assms by (auto simp: promise_found_def go_simps)
  show ?thesis
  proof (cases "be_Error ?e")
    case None
    with assms a show ?thesis by (simp add: promise_found_def go_bind_eq_Ret)
  next
    case (Some x)
    with assms a have "h' = set_entry a (?e\<lparr>be_WaitFor := Some (st_nchan h), be_Error := None\<rparr>) (snd (make_chan h))"
      by (simp add: promise_found_def go_bind_eq_Ret make_chan_def)
    then show ?thesis
      using store_blocks_set_entry[of a "?e\<lparr>be_WaitFor := Some (st_nchan h), be_Error := None\<rparr>" "snd (make_chan h)"]
        store_blocks_at[OF a] by auto
  qed
qed

lemma deliver_found_blocks:
  assumes "deliver_found a b h = Ret h'"
  shows "store_blocks h' \<subseteq> store_blocks h \<union> brings b"
proof -
  let ?e = "merge_block b (st_entries h ! a)"
  have a: "a < length (st_entries h)" using assms by (auto simp: deliver_found_def go_simps)
  obtain e' cs where h': "h' = set_entry a e' (h\<lparr>st_closed := cs\<rparr>)" "be_B e' = be_B ?e"
  proof (cases "be_WaitFor ?e \<noteq> None \<and> (be_B ?e \<noteq> None \<or> be_Error ?e \<noteq> None)")
    case True
    then show ?thesis
      using assms that[of "?e\<lparr>be_WaitFor := None\<rparr>"]
      by (auto simp: deliver_found_def go_simps Let_def close_chan_def split: if_splits)
  next
    case False
    then show ?thesis
      using assms that[of ?e "st_closed h"]
      by (auto simp: deliver_found_def go_simps Let_def split: option.splits if_splits)
  qed
  have "set_option (be_B (st_entries h ! a)) \<subseteq> store_blocks h" using store_blocks_at[OF a] by auto
  with h' merge_block_brings[of b "st_entries h ! a"] store_blocks_set_entry[of a e' "h\<lparr>st_closed := cs\<rparr>"]
  show ?thesis by auto
qed

lemma addBlock_blocks:
  assumes "addBlock lru bc b h = Ret (bc', h')"
  shows "store_blocks h' \<subseteq> store_blocks h \<union> brings b"
proof -
  obtain a h1 where n: "new_entry (entry_of_block b) h = (a, h1)" by (metis surj_pair)
  have h1: "store_blocks h1 \<subseteq> store_blocks h \<union> brings b"
  proof -
    have "store_blocks h1 = store_blocks h \<union> set_option (be_B (entry_of_block b))"
      using store_blocks_simps(4)[of "entry_of_block b" h] unfolding n by simp
    then show ?thesis by (simp add: entry_of_block_def brings_def)
  qed
  obtain found c' where p: "lru_PeekOrAdd lru (bc_c bc) (bw_Round b) a = (found, c')" by (metis surj_pair)
  show ?thesis
  proof (cases found)
    case None
    with assms n p h1 show ?thesis by (simp add: addBlock_def)
  next
    case (Some fa)
    with assms n p have "deliver_found fa b h1 = Ret h'" by (auto simp: addBlock_def go_simps)
    from deliver_found_blocks[OF this] h1 show ?thesis by blast
  qed
qed

lemma promiseBlock_blocks:
  assumes "promiseBlock lru bc r h = Ret (a, bc', h')"
  shows "store_blocks h' \<subseteq> store_blocks h"
proof -
  let ?e = "\<lparr>be_B = None, be_WaitFor = Some (st_nchan h), be_Round = r, be_Error = None\<rparr>"
  let ?h2 = "snd (new_entry ?e (snd (make_chan h)))" and ?a = "length (st_entries h)"
  have h2: "store_blocks ?h2 = store_blocks h" by simp
  obtain found c' where p: "lru_PeekOrAdd lru (bc_c bc) r ?a = (found, c')" by (metis surj_pair)
  have "h' = ?h2 \<or> (\<exists>fa. promise_found fa ?h2 = Ret h')"
    using assms p by (cases found) (auto simp: promiseBlock_def make_chan_def new_entry_def go_simps)
  with h2 promise_found_blocks show ?thesis by blast
qed

lemma AddBlock_blocks:
  "AddBlock lru u b = Ret u' \<Longrightarrow> store_blocks (uc_store u') \<subseteq> store_blocks (uc_store u) \<union> brings b"
  by (auto simp: AddBlock_def Let_def go_simps dest!: addBlock_blocks)

lemma PromiseBlock_blocks:
  "PromiseBlock lru u r = Ret (a, u') \<Longrightarrow> store_blocks (uc_store u') \<subseteq> store_blocks (uc_store u)"
  by (auto simp: PromiseBlock_def Let_def go_simps dest!: promiseBlock_blocks)

section \<open>The calls\<close>

fun returned :: "gb_pc \<Rightarrow> BlockWrap set" where
  "returned (GB_Done bw err) = set_option bw"
| "returned pc = {}"

lemma returned_next: "returned (gb_next r pc bw err) \<subseteq> set_option bw \<union> returned pc"
  by (cases "(r, pc, bw, err)" rule: gb_next.cases) auto

lemma returned_lookup: "pc \<in> gb_lookups \<Longrightarrow> returned pc = {}"
  by (auto simp: gb_lookups_def)

lemma gb_step_blocks:
  assumes "gb_step lru r pc u = Ret (pc', u')"
  shows "store_blocks (uc_store u') \<subseteq> store_blocks (uc_store u) \<and>
    returned pc' \<subseteq> store_blocks (uc_store u) \<union> returned pc"
proof -
  have look: ?thesis if l: "gb_lookup lru r pc u = Ret (pc', u')" and rp: "pc \<in> gb_lookups"
  proof -
    obtain res bc where g: "getBlock_start lru (sel_cache (gb_cache pc) u) r (uc_store u) = Ret (res, bc)"
      "pc' = gb_resume r pc res" "uc_store u' = uc_store u"
      using l by (auto simp: gb_lookup_def Let_def go_simps)
    have "set_option bw \<subseteq> store_blocks (uc_store u)" if "res = GB_Ret bw ok err" for bw ok err
      using g(1) that store_blocks_at
      by (auto simp: getBlock_start_def Let_def go_simps split: prod.splits option.splits)
    then have "returned pc' \<subseteq> store_blocks (uc_store u)"
      using g(2) returned_next[of r pc] returned_lookup[OF rp] by (cases res) fastforce+
    with g(3) show ?thesis by auto
  qed
  show ?thesis
    using assms look by (cases pc) (auto simp: gb_lookups_def go_simps dest!: PromiseBlock_blocks)
qed

lemma gb_wake_blocks:
  assumes "gb_wake r pc a u = Ret pc'" "pc \<in> gb_lookups"
  shows "returned pc' \<subseteq> store_blocks (uc_store u)"
proof -
  obtain res where g: "getBlock_woken a (uc_store u) = Ret res" "pc' = gb_resume r pc res"
    using assms(1) by (auto simp: gb_wake_def go_simps)
  have "\<exists>bw ok err. res = GB_Ret bw ok err \<and> set_option bw \<subseteq> store_blocks (uc_store u)"
    using g(1) store_blocks_at by (auto simp: getBlock_woken_def go_simps split: option.splits)
  with g(2) show ?thesis using returned_next[of r pc] returned_lookup[OF assms(2)] by fastforce
qed

lemma gb_timeout_blocks:
  assumes "gb_timeout lru r pc e u = Ret (pc', u')" "pc \<in> gb_lookups"
  shows "store_blocks (uc_store u') \<subseteq> store_blocks (uc_store u) \<and> returned pc' = {}"
proof -
  obtain bc' h' where g: "addBlock lru (sel_cache (gb_cache pc) u) (error_wrap r block_timeout) (uc_store u) = Ret (bc', h')"
    "pc' = gb_next r pc None (Some e)" "uc_store u' = h'"
    using assms(1) by (auto simp: gb_timeout_def getBlock_timeout_def Let_def go_simps)
  have "returned pc' = {}" using g(2) returned_next[of r pc None "Some e"] returned_lookup[OF assms(2)] by auto
  with addBlock_blocks[OF g(1)] g(3) show ?thesis by (simp add: brings_def)
qed

section \<open>Histories\<close>

definition usys_blocks :: "'l usys \<Rightarrow> BlockWrap set" where
  "usys_blocks s = store_blocks (uc_store (us_cache s)) \<union> (\<Union>c \<in> set (us_calls s). returned (snd c))"

lemma usys_blocks_upd:
  assumes "store_blocks (uc_store u') \<subseteq> usys_blocks s \<union> B" "returned pc' \<subseteq> usys_blocks s \<union> B"
  shows "usys_blocks (s\<lparr>us_cache := u', us_calls := (us_calls s)[i := (r, pc')]\<rparr>) \<subseteq> usys_blocks s \<union> B"
  using assms set_update_subset_insert[of "us_calls s" i "(r, pc')"] by (fastforce simp: usys_blocks_def)

lemma usys_blocks_cache:
  assumes "store_blocks (uc_store u') \<subseteq> store_blocks (uc_store (us_cache s)) \<union> B"
  shows "usys_blocks (s\<lparr>us_cache := u'\<rparr>) \<subseteq> usys_blocks s \<union> B"
  using assms by (auto simp: usys_blocks_def)

lemma ustep_blocks:
  assumes "ustep lru l s s'" "list_all (call_ok (uc_store (us_cache s))) (us_calls s)"
  shows "usys_blocks s' \<subseteq> usys_blocks s \<union> (case l of None \<Rightarrow> {} | Some b \<Rightarrow> brings b)"
  using assms(1)
proof cases
  case (us_call r)
  then show ?thesis by (auto simp: usys_blocks_def)
next
  case (us_add b u')
  then show ?thesis using usys_blocks_cache[OF AddBlock_blocks[OF us_add(3)]] by simp
next
  case (us_promise r a u')
  then show ?thesis using usys_blocks_cache[of u' s "{}"] PromiseBlock_blocks[OF us_promise(3)] by simp
next
  case (us_deliver a b h')
  then show ?thesis
    using usys_blocks_cache[of "(us_cache s)\<lparr>uc_store := h'\<rparr>" s "brings b"] deliver_found_blocks[of a b _ h'] by simp
next
  case (us_rearm a h')
  then show ?thesis
    using usys_blocks_cache[of "(us_cache s)\<lparr>uc_store := h'\<rparr>" s "{}"] promise_found_blocks[of a _ h'] by simp
next
  case (us_run i r pc pc' u')
  have "returned pc \<subseteq> usys_blocks s" using nth_mem[OF us_run(3)] us_run(4) by (fastforce simp: usys_blocks_def)
  then show ?thesis
    using us_run gb_step_blocks[OF us_run(5)] usys_blocks_upd[of u' s "{}" pc' i r] by (auto simp: usys_blocks_def)
next
  case (us_wake i r pc a ch pc')
  have "pc \<in> gb_lookups" using assms(2) us_wake(3,4) by (auto simp: list_all_length)
  then show ?thesis
    using us_wake gb_wake_blocks[OF us_wake(6)] usys_blocks_upd[of "us_cache s" s "{}" pc' i r]
    by (auto simp: usys_blocks_def)
next
  case (us_timeout i r pc a ch e pc' u')
  have "pc \<in> gb_lookups" using assms(2) us_timeout(3,4) by (auto simp: list_all_length)
  then show ?thesis
    using us_timeout gb_timeout_blocks[OF us_timeout(5)] usys_blocks_upd[of u' s "{}" pc' i r]
    by (auto simp: usys_blocks_def)
qed

context lru_contract
begin

lemma uhist_blocks: "uhist lru bs s \<Longrightarrow> usys_blocks s \<subseteq> {b \<in> set bs. bw_Error b = None}"
proof (induction rule: uhist.induct)
  case uhist_init
  then show ?case by (simp add: usys_blocks_def New_def)
next
  case (uhist_step bs s l s')
  have "list_all (call_ok (uc_store (us_cache s))) (us_calls s)"
    using ureach_ok[OF uhist_ureach[OF uhist_step.hyps(1)]] by (simp add: usys_ok_def)
  from ustep_blocks[OF uhist_step.hyps(2) this] uhist_step.IH
  show ?case by (auto simp: brings_def split: option.splits if_splits)
qed

lemma returned_delivered:
  assumes "uhist lru bs s" "i < length (us_calls s)" "us_calls s ! i = (r, GB_Done (Some b) err)"
  shows "b \<in> set bs \<and> bw_Error b = None \<and> bw_Round b = r"
proof -
  have "b \<in> usys_blocks s" using nth_mem[OF assms(2)] assms(3) by (fastforce simp: usys_blocks_def)
  moreover have "bw_Round b = r"
    using reach_call_ok[OF uhist_ureach[OF assms(1)] assms(2,3)] by simp
  ultimately show ?thesis using uhist_blocks[OF assms(1)] by auto
qed

end
end
