(* ===== verification/Config.thy ===== *)
theory Config
  imports AVN_Prelude
begin

text \<open>
  \<open>internal/config/cfg.go\<close> with \<open>LoadJSONCFromFile\<close> of \<open>internal/utils/utils.go\<close>. The file
  system, the JSONC filter and the JSON decoder are parameters: the decoder merges a text into a value and
  may leave it partly filled when it reports an error, as \<open>json.Unmarshal\<close> does.
\<close>

section \<open>Data\<close>

record NodeCfg =
  nc_Address :: string
  nc_Token :: string
  nc_Id :: string
  nc_ReqLimit :: "32 word"

record HttpCfg =
  hc_Listen :: string
  hc_CertDir :: string
  hc_Autocerts :: bool
  hc_Enabled :: bool
  hc_H2C :: bool

record HttpsCfg =
  hs_Listen :: string
  hs_Enabled :: bool

record AlgodCfg =
  al_Nodes :: "NodeCfg list"
  al_Http :: "HttpCfg option"
  al_Https :: "HttpsCfg option"
  al_Cache :: int
  al_RateLimit :: int
  al_Tokens :: "string list"

record IdxCfg =
  ix_Http :: "HttpCfg option"
  ix_Https :: "HttpsCfg option"
  ix_RateLimit :: int
  ix_Tokens :: "string list"
  ix_Enabled :: bool

record LoggingCfg =
  lg_Level :: string
  lg_Format :: string

record AlgoVNodeConfig =
  cfg_Logging :: LoggingCfg
  cfg_Algod :: "AlgodCfg option"
  cfg_Indexer :: "IdxCfg option"

definition defaultConfig :: AlgoVNodeConfig where
  "defaultConfig =
     \<lparr>cfg_Logging = \<lparr>lg_Level = '''', lg_Format = ''''\<rparr>,
      cfg_Algod = Some \<lparr>al_Nodes = [],
                        al_Http = Some \<lparr>hc_Listen = '':18090'', hc_CertDir = '''', hc_Autocerts = False,
                                        hc_Enabled = True, hc_H2C = True\<rparr>,
                        al_Https = None, al_Cache = 1000, al_RateLimit = 0, al_Tokens = []\<rparr>,
      cfg_Indexer = Some \<lparr>ix_Http = Some \<lparr>hc_Listen = '':18980'', hc_CertDir = '''', hc_Autocerts = False,
                                          hc_Enabled = True, hc_H2C = True\<rparr>,
                          ix_Https = None, ix_RateLimit = 0, ix_Tokens = [], ix_Enabled = True\<rparr>\<rparr>"

section \<open>Loading\<close>

record 'a file_env =
  fe_ReadFile :: "string \<Rightarrow> goerror + byte list"
  fe_ToJSON :: "byte list \<Rightarrow> byte list"
  fe_Unmarshal :: "byte list \<Rightarrow> 'a \<Rightarrow> goerror option \<times> 'a"

definition LoadJSONCFromFile :: "'a file_env \<Rightarrow> string \<Rightarrow> 'a \<Rightarrow> goerror option \<times> 'a" where
  "LoadJSONCFromFile fe filename object =
     (case fe_ReadFile fe filename of
        Inl e \<Rightarrow> (Some e, object)
      | Inr data \<Rightarrow> fe_Unmarshal fe (fe_ToJSON fe data) object)"

definition missing_algod :: goerror where
  "missing_algod = new_error ''missing algod config''"

definition no_nodes :: goerror where
  "no_nodes = new_error ''configure at least one node''"

definition LoadConfig :: "AlgoVNodeConfig file_env \<Rightarrow> string \<Rightarrow> AlgoVNodeConfig \<times> goerror option" where
  "LoadConfig fe cfgFile =
     (let (err, cfg) = LoadJSONCFromFile fe cfgFile defaultConfig in
      case cfg_Algod cfg of
        None \<Rightarrow> (cfg, Some missing_algod)
      | Some a \<Rightarrow> if length (al_Nodes a) = 0 then (cfg, Some no_nodes) else (cfg, err))"

section \<open>Properties\<close>

text \<open>A file system with one file, for the witnesses.\<close>

definition demo_cfg :: AlgoVNodeConfig where
  "demo_cfg = defaultConfig\<lparr>cfg_Algod := map_option (\<lambda>a. a\<lparr>al_Nodes :=
     [\<lparr>nc_Address = ''http://n1'', nc_Token = '''', nc_Id = ''n1'', nc_ReqLimit = 0\<rparr>]\<rparr>) (cfg_Algod defaultConfig)\<rparr>"

definition demo_fe :: "AlgoVNodeConfig file_env" where
  "demo_fe = \<lparr>fe_ReadFile = (\<lambda>f. if f = ''config.jsonc'' then Inr [1] else Inl (new_error ''no such file'')),
     fe_ToJSON = id, fe_Unmarshal = (\<lambda>d c. (None, demo_cfg))\<rparr>"

text \<open>
  A configuration that is accepted names an algod section with at least one node, and the
  file was read and decoded without an error.
\<close>

theorem LoadConfig_accepts:
  assumes "LoadConfig fe f = (cfg, None)"
  shows "(\<exists>a. cfg_Algod cfg = Some a \<and> al_Nodes a \<noteq> []) \<and>
    (\<exists>data. fe_ReadFile fe f = Inr data \<and> fe_Unmarshal fe (fe_ToJSON fe data) defaultConfig = (None, cfg))"
proof -
  obtain err c where l: "LoadJSONCFromFile fe f defaultConfig = (err, c)" by (metis surj_pair)
  then have c: "c = cfg" "err = None" "\<exists>a. cfg_Algod cfg = Some a \<and> al_Nodes a \<noteq> []"
    using assms by (auto simp: LoadConfig_def split: option.splits if_splits)
  then show ?thesis using l by (auto simp: LoadJSONCFromFile_def split: sum.splits)
qed

theorem LoadConfig_accepts_witness: "\<exists>a. cfg_Algod demo_cfg = Some a \<and> al_Nodes a \<noteq> []"
proof -
  have "LoadConfig demo_fe ''config.jsonc'' = (demo_cfg, None)"
    by (simp add: LoadConfig_def LoadJSONCFromFile_def demo_fe_def) (simp add: demo_cfg_def defaultConfig_def)
  from LoadConfig_accepts[OF this] show ?thesis by blast
qed

text \<open>
  A configuration file that cannot be read is reported as ``configure at least one node'', whatever the
  error of the file system was: the defaults have no node and that check comes first.
\<close>

theorem LoadConfig_unreadable:
  assumes "fe_ReadFile fe f = Inl e"
  shows "LoadConfig fe f = (defaultConfig, Some (new_error ''configure at least one node''))"
  using assms by (simp add: LoadConfig_def LoadJSONCFromFile_def no_nodes_def defaultConfig_def)

theorem LoadConfig_unreadable_witness:
  "snd (LoadConfig demo_fe ''missing.jsonc'') = Some (new_error ''configure at least one node'')"
  using LoadConfig_unreadable[of demo_fe "''missing.jsonc''"] by (simp add: demo_fe_def)

end
