(* ===== verification/Float32.thy ===== *)
theory Float32
  imports Complex_Main
begin

text \<open>
  The \<open>float32\<close> arithmetic behind \<open>rttEwma\<close>: a finite value is the rational it stands
  for, and every operation is the exact one followed by rounding to 24 significant bits, to nearest with ties to even,
  with the subnormal spacing \<open>2 ^ (- 149)\<close> at the bottom. The values of the program stay below
  \<open>2 ^ 127\<close> by far (a duration in microseconds is an \<open>int64\<close>), so infinities and NaN do not
  occur. Each operation rounds on its own: products and sums are not fused.
\<close>

section \<open>Rounding\<close>

text \<open>To the nearest integer, ties to even.\<close>

definition round_even :: "rat \<Rightarrow> int" where
  "round_even x =
     (let n = \<lfloor>x\<rfloor>; d = x - of_int n in
      if d < 1 / 2 then n else if d > 1 / 2 then n + 1 else if even n then n else n + 1)"

text \<open>The spacing of the values around \<open>x\<close>, searched upwards from the smallest one.\<close>

primrec quantum_from :: "nat \<Rightarrow> rat \<Rightarrow> rat \<Rightarrow> rat" where
  "quantum_from 0 q x = q"
| "quantum_from (Suc n) q x = (if x < 2 ^ 24 * q then q else quantum_from n (2 * q) x)"

definition f32_quantum :: "rat \<Rightarrow> rat" where
  "f32_quantum x = quantum_from 253 (1 / 2 ^ 149) x"

definition f32_round_pos :: "rat \<Rightarrow> rat" where
  "f32_round_pos x = of_int (round_even (x / f32_quantum x)) * f32_quantum x"

definition f32_round :: "rat \<Rightarrow> rat" where
  "f32_round x = (if x < 0 then - f32_round_pos (- x) else f32_round_pos x)"

definition f32_add :: "rat \<Rightarrow> rat \<Rightarrow> rat" where
  "f32_add x y = f32_round (x + y)"

definition f32_mul :: "rat \<Rightarrow> rat \<Rightarrow> rat" where
  "f32_mul x y = f32_round (x * y)"

definition f32_div :: "rat \<Rightarrow> rat \<Rightarrow> rat" where
  "f32_div x y = f32_round (x / y)"

text \<open>\<open>float32(n)\<close> and \<open>int64(x)\<close>, which truncates towards zero.\<close>

definition f32_of_int :: "int \<Rightarrow> rat" where
  "f32_of_int n = f32_round (of_int n)"

definition f32_trunc :: "rat \<Rightarrow> int" where
  "f32_trunc x = (if x < 0 then - \<lfloor>- x\<rfloor> else \<lfloor>x\<rfloor>)"

section \<open>Lemmas\<close>

lemma round_even_bounds: "\<bar>of_int (round_even x) - x\<bar> \<le> 1 / 2"
proof -
  have "of_int \<lfloor>x\<rfloor> \<le> x" "x < of_int \<lfloor>x\<rfloor> + 1" using floor_correct[of x] by auto
  then show ?thesis by (auto simp: round_even_def Let_def)
qed

lemma round_even_int [simp]: "round_even (of_int n) = n"
  by (simp add: round_even_def)

lemma round_even_nonneg: "0 \<le> x \<Longrightarrow> 0 \<le> round_even x"
  using zero_le_floor[of x] by (auto simp: round_even_def Let_def)

lemma quantum_from_pos: "0 < q \<Longrightarrow> 0 < quantum_from n q x"
  by (induction n arbitrary: q) auto

lemma f32_quantum_pos: "0 < f32_quantum x"
  by (simp add: f32_quantum_def quantum_from_pos)

lemma f32_round_nonneg: "0 \<le> x \<Longrightarrow> 0 \<le> f32_round x"
  using round_even_nonneg[of "x / f32_quantum x"] f32_quantum_pos[of x]
  by (simp add: f32_round_def f32_round_pos_def)

lemma quantum_from_le: "0 < q \<Longrightarrow> 0 \<le> x \<Longrightarrow> quantum_from n q x \<le> max q (x / 2 ^ 23)"
proof (induction n arbitrary: q)
  case (Suc n)
  show ?case
  proof (cases "x < 2 ^ 24 * q")
    case False
    then have "2 * q \<le> x / 2 ^ 23" by (simp add: field_simps)
    moreover have "quantum_from n (2 * q) x \<le> max (2 * q) (x / 2 ^ 23)" using Suc by simp
    ultimately show ?thesis using False by (simp add: max_def split: if_splits)
  qed simp
qed simp

text \<open>Rounding moves a value by at most one part in \<open>2 ^ 24\<close>, or half the smallest spacing.\<close>

lemma f32_round_error:
  assumes "0 \<le> x"
  shows "\<bar>f32_round x - x\<bar> \<le> max (1 / 2 ^ 149) (x / 2 ^ 23) / 2"
proof -
  let ?q = "f32_quantum x"
  have q: "0 < ?q" by (rule f32_quantum_pos)
  have "f32_round x - x = (of_int (round_even (x / ?q)) - x / ?q) * ?q"
    using assms q by (simp add: f32_round_def f32_round_pos_def field_simps)
  then have "\<bar>f32_round x - x\<bar> = \<bar>of_int (round_even (x / ?q)) - x / ?q\<bar> * ?q" using q by (simp add: abs_mult)
  also have "\<dots> \<le> 1 / 2 * ?q" using round_even_bounds[of "x / ?q"] q by (intro mult_right_mono) auto
  also have "\<dots> \<le> max (1 / 2 ^ 149) (x / 2 ^ 23) / 2"
    using quantum_from_le[of "1 / 2 ^ 149" x 253] assms by (simp add: f32_quantum_def)
  finally show ?thesis .
qed

text \<open>Integers of 24 bits are exact.\<close>

lemma quantum_from_frac: "x < 2 ^ 24 \<Longrightarrow> j \<le> n \<Longrightarrow> \<exists>k. quantum_from n (1 / 2 ^ j) x = 1 / 2 ^ k"
proof (induction n arbitrary: j)
  case 0
  then show ?case by (intro exI[of _ 0]) simp
next
  case (Suc n)
  show ?case
  proof (cases "x < 2 ^ 24 * (1 / 2 ^ j)")
    case True
    then show ?thesis by (intro exI[of _ j]) simp
  next
    case False
    then obtain i where j: "j = Suc i" using Suc.prems by (cases j) auto
    have "2 * (1 / 2 ^ j) = (1 / 2 ^ i :: rat)" by (simp add: j)
    then show ?thesis using False Suc.IH[of i] Suc.prems j by simp
  qed
qed

lemma f32_of_int_exact:
  assumes "0 \<le> n" "n < 2 ^ 24"
  shows "f32_of_int n = of_int n"
proof -
  have lt: "(of_int n :: rat) < 2 ^ 24" using of_int_less_iff[of n "2 ^ 24", where 'a = rat] assms(2) by simp
  obtain k where q: "f32_quantum (of_int n) = 1 / 2 ^ k"
    using quantum_from_frac[OF lt, of 149 253] by (auto simp: f32_quantum_def)
  have "of_int n / (1 / 2 ^ k) = (of_int (n * 2 ^ k) :: rat)" by simp
  then have "round_even (of_int n / (1 / 2 ^ k)) = n * 2 ^ k" by (metis round_even_int)
  then show ?thesis using assms(1) by (simp add: f32_of_int_def f32_round_def f32_round_pos_def q)
qed

end
