(* ===== verification/Cluster.thy ===== *)
theory Cluster
  imports Unified_Cache Config Float32
begin

text \<open>
  The state of \<open>internal/algod\<close> and its operations that run under a lock, from
  \<open>cluster.go\<close> and \<open>node.go\<close>. Pointers to nodes are positions in the list
  of nodes, which only grows while the cluster is built. A channel is what it holds: \<open>cState\<close>
  the number of pending notifications, \<open>bpSink\<close> its queue, \<open>fatalErr\<close> the errors
  that were sent. The broadcaster is the list of what was submitted to it.

  The lemmas describe the lists of synced nodes, the response-time average and the latest
  round.
\<close>

section \<open>Data\<close>

datatype ANState = AnsConfig | AnsBooting | AnsSyncing | AnsSynced | AnsFailing | AnsFailed

fun ANState_String :: "ANState \<Rightarrow> string" where
  "ANState_String AnsBooting = ''Booting''"
| "ANState_String AnsSyncing = ''Syncing''"
| "ANState_String AnsSynced = ''Synced''"
| "ANState_String AnsConfig = ''Config''"
| "ANState_String AnsFailing = ''Failing''"
| "ANState_String AnsFailed = ''Failed''"

definition ANState_MarshalJSON :: "ANState \<Rightarrow> string" where
  "ANState_MarshalJSON s = ''\"'' @ ANState_String s @ ''\"''"

text \<open>
  The status of a node as the SDK returns it, with the fields that the program reads; the
  rest is passed on.
\<close>

record models_NodeStatus =
  ns_LastRound :: u64
  ns_CatchupTime :: u64
  ns_StoppedAtUnsupportedRound :: bool
  ns_rest :: string

record Node =
  nd_cfg :: NodeCfg
  nd_genesis :: string
  nd_Catchup :: bool
  nd_rttEwma :: rat
  nd_latestRound :: u64
  nd_state :: ANState
  nd_state_at :: instant
  nd_lastStatus :: "models_NodeStatus option"

record BlockPrefetch =
  bp_FirstReq :: u64
  bp_LastReq :: u64
  bp_LastPre :: u64
  bp_NextPre :: u64
  bp_Hits :: u64
  bp_LastPreAt :: instant

record 'l NodeCluster =
  cl_fatalErr :: "goerror list"
  cl_ucache :: "'l UnifiedBlockCache option"
  cl_latestRound :: u64
  cl_lastSrc :: "nat option"
  cl_lastAt :: instant
  cl_genesis :: string
  cl_nodes :: "Node list"
  cl_cState :: nat
  cl_catchupNodes :: "nat list"
  cl_archNodes :: "nat list"
  cl_broadcasts :: "models_NodeStatus option list"
  cl_bpSink :: "u64 list"
  cl_bps :: "BlockPrefetch list"

definition upd_node :: "nat \<Rightarrow> (Node \<Rightarrow> Node) \<Rightarrow> 'l NodeCluster \<Rightarrow> 'l NodeCluster" where
  "upd_node i f gs = gs\<lparr>cl_nodes := (cl_nodes gs)[i := f (cl_nodes gs ! i)]\<rparr>"

section \<open>Latest round and genesis\<close>

definition GetLatestRound :: "'l NodeCluster \<Rightarrow> u64" where
  "GetLatestRound gs = cl_latestRound gs"

definition SetLatestRound :: "instant \<Rightarrow> u64 \<Rightarrow> nat \<Rightarrow> 'l NodeCluster \<Rightarrow> bool \<times> 'l NodeCluster" where
  "SetLatestRound now lr node gs =
     (if lr > cl_latestRound gs
      then (True, gs\<lparr>cl_latestRound := lr, cl_lastAt := now, cl_lastSrc := Some node,
                     cl_broadcasts := cl_broadcasts gs @ [nd_lastStatus (cl_nodes gs ! node)]\<rparr>)
      else (False, gs))"

definition genesis_mismatch :: goerror where
  "genesis_mismatch = new_error ''genesis mismatch''"

definition EnsureGenesis :: "string \<Rightarrow> 'l NodeCluster \<Rightarrow> goerror option \<times> 'l NodeCluster" where
  "EnsureGenesis g gs =
     (if cl_genesis gs = '''' then (None, gs\<lparr>cl_genesis := g\<rparr>)
      else if cl_genesis gs = g then (None, gs)
      else (Some genesis_mismatch, gs))"

definition isBlockInTheFuture :: "u64 \<Rightarrow> 'l NodeCluster \<Rightarrow> bool" where
  "isBlockInTheFuture rnd gs = (rnd > cl_latestRound gs)"

section \<open>Synced nodes\<close>

definition Synced :: "Node \<Rightarrow> bool" where
  "Synced n = (nd_state n = AnsSynced)"

text \<open>
  The loop over the nodes appends to two slices, which are then sorted by response time;
  \<open>sort_key\<close> is the stable sort.
\<close>

fun node_lists :: "Node list \<Rightarrow> nat \<Rightarrow> nat list \<times> nat list \<Rightarrow> nat list \<times> nat list" where
  "node_lists [] i (catchup, arch) = (catchup, arch)"
| "node_lists (n # ns) i (catchup, arch) =
     node_lists ns (Suc i)
       (if Synced n then if nd_Catchup n then (catchup @ [i], arch) else (catchup, arch @ [i])
        else (catchup, arch))"

definition updateNodeLists :: "'l NodeCluster \<Rightarrow> 'l NodeCluster" where
  "updateNodeLists gs =
     (let (catchup, arch) = node_lists (cl_nodes gs) 0 ([], []);
          rtt = (\<lambda>i. nd_rttEwma (cl_nodes gs ! i))
      in gs\<lparr>cl_archNodes := sort_key rtt arch, cl_catchupNodes := sort_key rtt catchup\<rparr>)"

definition GetCatchupSyncedNodesByRTT :: "'l NodeCluster \<Rightarrow> nat list" where
  "GetCatchupSyncedNodesByRTT gs = cl_catchupNodes gs"

definition GetArchSyncedNodesByRTT :: "'l NodeCluster \<Rightarrow> nat list" where
  "GetArchSyncedNodesByRTT gs = cl_archNodes gs"

definition GetSyncedNodesByRTT :: "'l NodeCluster \<Rightarrow> nat list" where
  "GetSyncedNodesByRTT gs = GetCatchupSyncedNodesByRTT gs @ GetArchSyncedNodesByRTT gs"

section \<open>A node's own fields\<close>

text \<open>
  \<open>setState\<close> up to the notification: whether there is one to send, and the new state.
\<close>

definition change_state :: "instant \<Rightarrow> nat \<Rightarrow> ANState \<Rightarrow> 'l NodeCluster \<Rightarrow> bool \<times> 'l NodeCluster" where
  "change_state now i st gs =
     (if st = nd_state (cl_nodes gs ! i) then (False, gs)
      else (True, upd_node i (\<lambda>n. n\<lparr>nd_state := st, nd_state_at := now\<rparr>) gs))"

definition StateUpdate :: "'l NodeCluster \<Rightarrow> 'l NodeCluster" where
  "StateUpdate gs = gs\<lparr>cl_cState := Suc (cl_cState gs)\<rparr>"

definition record_status :: "nat \<Rightarrow> models_NodeStatus \<Rightarrow> 'l NodeCluster \<Rightarrow> 'l NodeCluster" where
  "record_status i ns =
     upd_node i (\<lambda>n. n\<lparr>nd_latestRound := (if ns_LastRound ns > nd_latestRound n then ns_LastRound ns
                                            else nd_latestRound n),
                       nd_lastStatus := Some ns\<rparr>)"

definition updateRTT_val :: "rat \<Rightarrow> int \<Rightarrow> rat" where
  "updateRTT_val rtt us =
     (if rtt > 99999 then f32_div (f32_of_int us) 1000
      else f32_add (f32_mul (f32_round (9 / 10)) rtt)
                   (f32_div (f32_mul (f32_round (1 / 10)) (f32_of_int us)) 1000))"

definition updateRTT :: "nat \<Rightarrow> int \<Rightarrow> 'l NodeCluster \<Rightarrow> 'l NodeCluster" where
  "updateRTT i us = upd_node i (\<lambda>n. n\<lparr>nd_rttEwma := updateRTT_val (nd_rttEwma n) us\<rparr>)"

section \<open>The cache of the cluster\<close>

definition isBlockCached :: "'l lru \<Rightarrow> u64 \<Rightarrow> 'l NodeCluster \<Rightarrow> bool go" where
  "isBlockCached lru rnd gs =
     (case cl_ucache gs of None \<Rightarrow> Panic NilDeref | Some u \<Rightarrow> IsBlockCached lru u rnd)"

definition ledger_error :: goerror where
  "ledger_error = new_error ''failed to retrieve information from the ledger''"

definition SinkError :: "'l lru \<Rightarrow> u64 \<Rightarrow> goerror option \<Rightarrow> 'l NodeCluster \<Rightarrow> 'l NodeCluster go" where
  "SinkError lru rnd err gs =
     (let e = (case err of None \<Rightarrow> ledger_error | Some e \<Rightarrow> e) in
      case cl_ucache gs of
        None \<Rightarrow> Ret gs
      | Some u \<Rightarrow> go_bind (AddBlock lru u (error_wrap rnd e)) (\<lambda>u'. Ret (gs\<lparr>cl_ucache := Some u'\<rparr>)))"

text \<open>\<open>BlockSink\<close>: the wrap is made only for the winner of the race or for a block not cached yet.\<close>

definition BlockSink ::
  "'l lru \<Rightarrow> wrap_env \<Rightarrow> instant \<Rightarrow> nat \<Rightarrow> EncodedBlockCert \<Rightarrow> byte list \<Rightarrow> 'l NodeCluster
    \<Rightarrow> (bool \<times> 'l NodeCluster) go" where
  "BlockSink lru we now i block blockRaw gs =
     (let rnd = bh_Round (blk_BlockHeader (ebc_Block block));
          (won, gs1) = SetLatestRound now rnd i gs;
          src = nc_Id (nd_cfg (cl_nodes gs ! i))
      in if won then
           go_bind (MakeBlockWrap we now src block blockRaw) (\<lambda>r.
             case r of
               Inl e \<Rightarrow> Ret (False, gs1)
             | Inr bw \<Rightarrow>
                 (case cl_ucache gs1 of
                    None \<Rightarrow> Ret (True, gs1)
                  | Some u \<Rightarrow> go_bind (AddBlock lru u bw) (\<lambda>u'. Ret (True, gs1\<lparr>cl_ucache := Some u'\<rparr>))))
         else
           go_bind (isBlockCached lru rnd gs1) (\<lambda>cached.
             if cached then Ret (False, gs1)
             else
               go_bind (MakeBlockWrap we now src block blockRaw) (\<lambda>r.
                 case r of
                   Inl e \<Rightarrow> Ret (False, gs1)
                 | Inr bw \<Rightarrow>
                     (case cl_ucache gs1 of
                        None \<Rightarrow> Ret (False, gs1)
                      | Some u \<Rightarrow> go_bind (AddBlock lru u bw) (\<lambda>u'. Ret (True, gs1\<lparr>cl_ucache := Some u'\<rparr>))))))"

section \<open>The new cluster\<close>

definition new_node :: "instant \<Rightarrow> NodeCfg \<Rightarrow> Node" where
  "new_node now cfg =
     \<lparr>nd_cfg = cfg, nd_genesis = '''', nd_Catchup = True, nd_rttEwma = 100000000, nd_latestRound = 0,
      nd_state = AnsConfig, nd_state_at = now, nd_lastStatus = None\<rparr>"

text \<open>\<open>addNode\<close> appends the node before \<open>Start\<close> can fail.\<close>

definition addNode :: "instant \<Rightarrow> NodeCfg \<Rightarrow> 'l NodeCluster \<Rightarrow> 'l NodeCluster" where
  "addNode now cfg gs = gs\<lparr>cl_nodes := cl_nodes gs @ [new_node now cfg]\<rparr>"

definition NewCluster :: "instant \<Rightarrow> 'l UnifiedBlockCache option \<Rightarrow> AlgodCfg \<Rightarrow> 'l NodeCluster" where
  "NewCluster now ucache cfg =
     fold (addNode now) (al_Nodes cfg)
       \<lparr>cl_fatalErr = [], cl_ucache = ucache, cl_latestRound = 0, cl_lastSrc = None, cl_lastAt = 0,
        cl_genesis = '''', cl_nodes = [], cl_cState = 0, cl_catchupNodes = [], cl_archNodes = [],
        cl_broadcasts = [], cl_bpSink = [], cl_bps = []\<rparr>"

section \<open>Lemmas: the lists of synced nodes\<close>

lemma node_lists_eq:
  "node_lists ns k (catchup, arch) =
     (catchup @ map (\<lambda>i. i + k) (filter (\<lambda>i. Synced (ns ! i) \<and> nd_Catchup (ns ! i)) [0..<length ns]),
      arch @ map (\<lambda>i. i + k) (filter (\<lambda>i. Synced (ns ! i) \<and> \<not> nd_Catchup (ns ! i)) [0..<length ns]))"
proof (induction ns arbitrary: k catchup arch)
  case (Cons n ns)
  have upt: "[0..<length (n # ns)] = 0 # map Suc [0..<length ns]"
    by (simp add: upt_conv_Cons map_Suc_upt del: upt_Suc)
  have f: "filter P [0..<length (n # ns)] = (if P 0 then [0] else []) @ map Suc (filter (P \<circ> Suc) [0..<length ns])" for P
    unfolding upt by (simp add: filter_map)
  show ?case unfolding f by (simp add: Cons.IH o_def)
qed simp

definition synced_ids :: "bool \<Rightarrow> 'l NodeCluster \<Rightarrow> nat list" where
  "synced_ids catchup gs =
     filter (\<lambda>i. Synced (cl_nodes gs ! i) \<and> nd_Catchup (cl_nodes gs ! i) = catchup) [0..<length (cl_nodes gs)]"

lemma updateNodeLists_eq:
  "updateNodeLists gs =
     gs\<lparr>cl_archNodes := sort_key (\<lambda>i. nd_rttEwma (cl_nodes gs ! i)) (synced_ids False gs),
        cl_catchupNodes := sort_key (\<lambda>i. nd_rttEwma (cl_nodes gs ! i)) (synced_ids True gs)\<rparr>"
  by (simp add: updateNodeLists_def node_lists_eq synced_ids_def Let_def)

lemma NewCluster_nodes:
  "cl_nodes (NewCluster now u cfg) = map (new_node now) (al_Nodes cfg)"
proof -
  have "cl_nodes (fold (addNode now) cs gs) = cl_nodes gs @ map (new_node now) cs" for cs and gs :: "'a NodeCluster"
    by (induction cs arbitrary: gs) (simp_all add: addNode_def)
  then show ?thesis by (simp add: NewCluster_def)
qed

lemma NewCluster_rest:
  "NewCluster now u cfg =
     \<lparr>cl_fatalErr = [], cl_ucache = u, cl_latestRound = 0, cl_lastSrc = None, cl_lastAt = 0,
      cl_genesis = '''', cl_nodes = map (new_node now) (al_Nodes cfg), cl_cState = 0, cl_catchupNodes = [],
      cl_archNodes = [], cl_broadcasts = [], cl_bpSink = [], cl_bps = []\<rparr>"
proof -
  have "fold (addNode now) cs gs = gs\<lparr>cl_nodes := cl_nodes gs @ map (new_node now) cs\<rparr>" for cs and gs :: "'a NodeCluster"
    by (induction cs arbitrary: gs) (simp_all add: addNode_def)
  then show ?thesis by (simp add: NewCluster_def)
qed

lemma upd_node_simps [simp]:
  "length (cl_nodes (upd_node i f gs)) = length (cl_nodes gs)"
  "cl_latestRound (upd_node i f gs) = cl_latestRound gs" "cl_genesis (upd_node i f gs) = cl_genesis gs"
  "cl_ucache (upd_node i f gs) = cl_ucache gs" "cl_cState (upd_node i f gs) = cl_cState gs"
  "cl_catchupNodes (upd_node i f gs) = cl_catchupNodes gs" "cl_archNodes (upd_node i f gs) = cl_archNodes gs"
  "cl_lastSrc (upd_node i f gs) = cl_lastSrc gs" "cl_bpSink (upd_node i f gs) = cl_bpSink gs"
  "cl_bps (upd_node i f gs) = cl_bps gs" "cl_broadcasts (upd_node i f gs) = cl_broadcasts gs"
  "cl_fatalErr (upd_node i f gs) = cl_fatalErr gs" "cl_lastAt (upd_node i f gs) = cl_lastAt gs"
  by (simp_all add: upd_node_def)

lemma upd_node_nth: "j < length (cl_nodes gs) \<Longrightarrow>
    cl_nodes (upd_node i f gs) ! j = (if i = j then f (cl_nodes gs ! j) else cl_nodes gs ! j)"
  by (simp add: upd_node_def nth_list_update)

lemma updateRTT_nonneg: "0 \<le> rtt \<Longrightarrow> 0 \<le> us \<Longrightarrow> 0 \<le> updateRTT_val rtt us"
  by (simp add: updateRTT_val_def f32_add_def f32_mul_def f32_div_def f32_of_int_def f32_round_nonneg)

end
