(* ===== verification/Proxy.thy ===== *)
theory Proxy
  imports Cluster Go_Strings
begin

text \<open>
  \<open>internal/algod/proxy.go\<close>: a request relayed to one upstream node. The incoming request
  is a record of what the program reads of it; the HTTP client is a parameter
  that acts on a state \<open>'w\<close>. What \<open>ProxyHTTP\<close> writes to the client is its second result.
  \<open>defaultHandler\<close> of \<open>internal/httpsrv/handlers.go\<close>, which walks through the synced nodes, is
  here too.
\<close>

section \<open>Requests and replies\<close>

record request =
  rq_Method :: string
  rq_RequestURI :: string
  rq_Path :: string
  rq_Body :: "byte list"
  rq_Header :: "string \<Rightarrow> string"
  rq_Param :: "string \<Rightarrow> string"
  rq_Format :: "goerror + string option"
  rq_RealIP :: string
  rq_Scheme :: string

datatype body =
    MessageBody string
  | StatusBody models_NodeStatus
  | BlobBody "byte list"
  | NullBody

record reply =
  rp_status :: int
  rp_type :: string
  rp_headers :: "(string \<times> string) list"
  rp_body :: body

definition jsonError :: "int \<Rightarrow> string \<Rightarrow> reply" where
  "jsonError status err =
     \<lparr>rp_status = status, rp_type = ''application/json'', rp_headers = [], rp_body = MessageBody err\<rparr>"

text \<open>The request sent upstream and its answer.\<close>

record outgoing =
  og_Method :: string
  og_URL :: string
  og_Body :: "byte list"
  og_Headers :: "(string \<times> string) list"
  og_Timeout :: duration

record upstream =
  up_StatusCode :: int
  up_Body :: "byte list"

record 'w client =
  ct_NewRequest :: "string \<Rightarrow> string \<Rightarrow> goerror option"
  ct_Do :: "outgoing \<Rightarrow> 'w \<Rightarrow> (goerror + upstream) \<times> 'w"

section \<open>ProxyHTTP\<close>

definition NODE_TAG :: string where
  "NODE_TAG = ''AlgoNodeVN/dev''"

text \<open>A nil slice accepts every status.\<close>

definition proxyStatus :: "int list option \<Rightarrow> int \<Rightarrow> bool" where
  "proxyStatus proxyStatuses status =
     (case proxyStatuses of None \<Rightarrow> True | Some ss \<Rightarrow> list_ex (\<lambda>s. s = status) ss)"

definition proxy_timeout :: "rat \<Rightarrow> int list option \<Rightarrow> duration" where
  "proxy_timeout rtt proxyStatuses =
     (if proxyStatuses = None then 10 * second else millisecond * (250 + 3 * f32_trunc rtt))"

definition proxy_request :: "Node \<Rightarrow> request \<Rightarrow> int list option \<Rightarrow> outgoing" where
  "proxy_request node rq proxyStatuses =
     \<lparr>og_Method = rq_Method rq,
      og_URL = nc_Address (nd_cfg node) @ rq_RequestURI rq,
      og_Body = [],
      og_Headers =
        [(''X-Real-IP'', rq_RealIP rq), (''X-Forwarded-Proto'', rq_Scheme rq)]
        @ (if length (nc_Token (nd_cfg node)) > 0 then [(''X-Algo-API-Token'', nc_Token (nd_cfg node))] else [])
        @ [(''User-Agent'', NODE_TAG)],
      og_Timeout = proxy_timeout (nd_rttEwma node) proxyStatuses\<rparr>"

definition ProxyHTTP ::
  "'w client \<Rightarrow> Node \<Rightarrow> request \<Rightarrow> int list option \<Rightarrow> 'w
    \<Rightarrow> (bool \<times> int \<times> goerror option) \<times> reply option \<times> 'w" where
  "ProxyHTTP ct node rq proxyStatuses w =
     (let req = proxy_request node rq proxyStatuses in
      case ct_NewRequest ct (og_Method req) (og_URL req) of
        Some err \<Rightarrow> ((False, 502, Some err), None, w)
      | None \<Rightarrow>
          (case ct_Do ct req w of (r, w') \<Rightarrow>
            (case r of
               Inl err \<Rightarrow> ((False, 500, Some err), None, w')
             | Inr resp \<Rightarrow>
                 if proxyStatus proxyStatuses (up_StatusCode resp)
                 then ((True, up_StatusCode resp, None),
                       Some \<lparr>rp_status = up_StatusCode resp, rp_type = '''',
                             rp_headers = [(''X-AVN-NodeID'', nc_Id (nd_cfg node))],
                             rp_body = BlobBody (up_Body resp)\<rparr>, w')
                 else ((False, up_StatusCode resp, None), None, w'))))"

section \<open>defaultHandler\<close>

definition proxy404 :: "int list option" where
  "proxy404 = Some [200, 204, 400, 404]"

definition proxy200 :: "int list option" where
  "proxy200 = Some [200, 204, 400]"

definition proxyALL :: "int list option" where
  "proxyALL = None"

definition no_upstream :: goerror where
  "no_upstream = new_error ''no synced upstream nodes available''"

text \<open>The loop: the last node may answer with any status.\<close>

fun proxy_loop :: "'w client \<Rightarrow> request \<Rightarrow> Node list \<Rightarrow> 'w \<Rightarrow> (reply \<times> goerror option) \<times> 'w" where
  "proxy_loop ct rq [] w = ((jsonError 502 ''No synced upstream nodes available'', Some no_upstream), w)"
| "proxy_loop ct rq (n # ns) w =
     (case ProxyHTTP ct n rq (if ns \<noteq> [] then proxy404 else proxyALL) w of ((ok, _, _), out, w') \<Rightarrow>
        (case out of
           Some rep \<Rightarrow> if ok then ((rep, None), w') else proxy_loop ct rq ns w'
         | None \<Rightarrow> proxy_loop ct rq ns w'))"

definition defaultHandler ::
  "'w client \<Rightarrow> 'l NodeCluster \<Rightarrow> request \<Rightarrow> 'w \<Rightarrow> (reply \<times> goerror option) \<times> 'w" where
  "defaultHandler ct gs rq w = proxy_loop ct rq (map (\<lambda>i. cl_nodes gs ! i) (GetSyncedNodesByRTT gs)) w"

section \<open>Lemmas\<close>

lemma proxyStatus_iff: "proxyStatus ss st \<longleftrightarrow> (\<forall>xs. ss = Some xs \<longrightarrow> st \<in> set xs)"
  by (auto simp: proxyStatus_def list_ex_iff split: option.splits)

lemma ProxyHTTP_ok_iff: "ProxyHTTP ct n rq ss w = ((ok, st, err), out, w') \<Longrightarrow> ok \<longleftrightarrow> out \<noteq> None"
  by (auto simp: ProxyHTTP_def Let_def split: option.splits sum.splits prod.splits if_splits)

lemma ProxyHTTP_reply:
  "ProxyHTTP ct n rq ss w = ((ok, st, err), Some rep, w') \<Longrightarrow>
     proxyStatus ss (rp_status rep) \<and> st = rp_status rep \<and> err = None \<and>
     rp_headers rep = [(''X-AVN-NodeID'', nc_Id (nd_cfg n))] \<and>
     (\<exists>resp. fst (ct_Do ct (proxy_request n rq ss) w) = Inr resp \<and> rp_status rep = up_StatusCode resp \<and>
        rp_body rep = BlobBody (up_Body resp))"
  by (auto simp: ProxyHTTP_def Let_def split: option.splits sum.splits prod.splits if_splits)

text \<open>What a relayed reply is: from one of the nodes, with a status that its place in the list allows.\<close>

lemma proxy_loop_reply:
  "proxy_loop ct rq ns w = ((rep, None), w') \<Longrightarrow>
     \<exists>k w0. k < length ns \<and> rp_headers rep = [(''X-AVN-NodeID'', nc_Id (nd_cfg (ns ! k)))] \<and>
       (k + 1 < length ns \<longrightarrow> rp_status rep \<in> {200, 204, 400, 404}) \<and>
       (\<exists>resp. fst (ct_Do ct (proxy_request (ns ! k) rq (if k + 1 < length ns then proxy404 else proxyALL)) w0) = Inr resp \<and>
          rp_status rep = up_StatusCode resp \<and> rp_body rep = BlobBody (up_Body resp))"
proof (induction ns arbitrary: w)
  case (Cons n ns)
  let ?ss = "if ns \<noteq> [] then proxy404 else proxyALL"
  obtain ok st err out w1 where p: "ProxyHTTP ct n rq ?ss w = ((ok, st, err), out, w1)" by (metis surj_pair)
  show ?case
  proof (cases out)
    case (Some r)
    then have "ok" using ProxyHTTP_ok_iff[OF p] by simp
    then have r: "r = rep" using Cons.prems p Some by simp
    from ProxyHTTP_reply[OF p[unfolded Some r]] show ?thesis
      by (intro exI[of _ 0] exI[of _ w]) (auto simp: proxyStatus_iff proxy404_def)
  next
    case None
    then have "proxy_loop ct rq ns w1 = ((rep, None), w')" using Cons.prems p by simp
    from Cons.IH[OF this] obtain k w0 where "k < length ns"
      "rp_headers rep = [(''X-AVN-NodeID'', nc_Id (nd_cfg (ns ! k)))]"
      "k + 1 < length ns \<longrightarrow> rp_status rep \<in> {200, 204, 400, 404}"
      "\<exists>resp. fst (ct_Do ct (proxy_request (ns ! k) rq (if k + 1 < length ns then proxy404 else proxyALL)) w0) = Inr resp \<and>
          rp_status rep = up_StatusCode resp \<and> rp_body rep = BlobBody (up_Body resp)" by blast
    then show ?thesis by (intro exI[of _ "Suc k"] exI[of _ w0]) simp
  qed
qed simp

text \<open>When the last node gives any answer at all, the client gets an answer of some node.\<close>

lemma proxy_loop_available:
  assumes "ns \<noteq> []" "\<And>w. \<exists>resp w'. ct_Do ct (proxy_request (last ns) rq proxyALL) w = (Inr resp, w')"
    and "ct_NewRequest ct (rq_Method rq) (nc_Address (nd_cfg (last ns)) @ rq_RequestURI rq) = None"
  shows "snd (fst (proxy_loop ct rq ns w)) = None"
  using assms
proof (induction ns arbitrary: w)
  case (Cons n ns)
  let ?ss = "if ns \<noteq> [] then proxy404 else proxyALL"
  obtain ok st err out w1 where p: "ProxyHTTP ct n rq ?ss w = ((ok, st, err), out, w1)" by (metis surj_pair)
  show ?case
  proof (cases out)
    case (Some r)
    then show ?thesis using ProxyHTTP_ok_iff[OF p] p by simp
  next
    case None
    have ne: "ns \<noteq> []"
    proof
      assume nil: "ns = []"
      obtain resp w2 where "ct_Do ct (proxy_request n rq proxyALL) w = (Inr resp, w2)" using Cons.prems(2)[of w] nil by auto
      then have "out \<noteq> None"
        using p Cons.prems(3) nil by (auto simp: ProxyHTTP_def Let_def proxy_request_def proxyALL_def proxyStatus_def)
      with None show False by simp
    qed
    then have "snd (fst (proxy_loop ct rq ns w1)) = None" using Cons.prems by (intro Cons.IH) simp_all
    then show ?thesis using p None by simp
  qed
qed simp

lemma proxy_loop_fails: "snd (fst (proxy_loop ct rq ns w)) \<noteq> None \<Longrightarrow>
    fst (proxy_loop ct rq ns w) = (jsonError 502 ''No synced upstream nodes available'', Some no_upstream)"
proof (induction ns arbitrary: w)
  case (Cons n ns)
  obtain ok st err out w1 where p: "ProxyHTTP ct n rq (if ns \<noteq> [] then proxy404 else proxyALL) w = ((ok, st, err), out, w1)"
    by (metis surj_pair)
  show ?case
  proof (cases out)
    case (Some r)
    then show ?thesis using Cons.prems p ProxyHTTP_ok_iff[OF p] by simp
  next
    case None
    then show ?thesis using Cons.prems p Cons.IH[of w1] by simp
  qed
qed simp

section \<open>Properties\<close>

definition demo_rq :: request where
  "demo_rq = \<lparr>rq_Method = ''POST'', rq_RequestURI = ''/v2/transactions'', rq_Path = ''/v2/transactions'', rq_Body = [1, 2, 3],
     rq_Header = (\<lambda>_. ''''), rq_Param = (\<lambda>_. ''''), rq_Format = Inr None, rq_RealIP = ''10.0.0.1'', rq_Scheme = ''http''\<rparr>"

definition demo_ct :: "unit client" where
  "demo_ct = \<lparr>ct_NewRequest = (\<lambda>m u. None), ct_Do = (\<lambda>og w. (Inr \<lparr>up_StatusCode = 500, up_Body = [5]\<rparr>, w))\<rparr>"

definition demo_proxied :: "lru_list NodeCluster" where
  "demo_proxied = (NewCluster 0 None \<lparr>al_Nodes = [\<lparr>nc_Address = ''http://n1'', nc_Token = '''', nc_Id = ''n1'', nc_ReqLimit = 0\<rparr>],
     al_Http = None, al_Https = None, al_Cache = 0, al_RateLimit = 0, al_Tokens = []\<rparr>)\<lparr>cl_catchupNodes := [0]\<rparr>"

text \<open>
  C36. A relayed answer is the answer of one synced node, named in \<open>X-AVN-NodeID\<close>, with its status and
  body unchanged; only the last node in the list may answer with a status other than 200,
  204, 400 and 404. If the handler returns an error, the client got status 502.
\<close>

theorem defaultHandler_reply:
  "case fst (defaultHandler ct gs rq w) of
     (rep, None) \<Rightarrow> \<exists>k w0. k < length (GetSyncedNodesByRTT gs) \<and>
       (let node = cl_nodes gs ! (GetSyncedNodesByRTT gs ! k); final = (k + 1 = length (GetSyncedNodesByRTT gs)) in
          rp_headers rep = [(''X-AVN-NodeID'', nc_Id (nd_cfg node))] \<and>
          (rp_status rep \<in> {200, 204, 400, 404} \<or> final) \<and>
          (\<exists>resp. fst (ct_Do ct (proxy_request node rq (if final then proxyALL else proxy404)) w0) = Inr resp \<and>
             rp_status rep = up_StatusCode resp \<and> rp_body rep = BlobBody (up_Body resp)))
   | (rep, Some e) \<Rightarrow> rep = jsonError 502 ''No synced upstream nodes available''"
proof -
  let ?ns = "map (\<lambda>i. cl_nodes gs ! i) (GetSyncedNodesByRTT gs)"
  obtain rep err w' where r: "proxy_loop ct rq ?ns w = ((rep, err), w')" by (metis surj_pair)
  show ?thesis
  proof (cases err)
    case (Some e)
    then show ?thesis using proxy_loop_fails[of ct rq ?ns w] r by (simp add: defaultHandler_def)
  next
    case None
    obtain k w0 where k: "k < length ?ns" "rp_headers rep = [(''X-AVN-NodeID'', nc_Id (nd_cfg (?ns ! k)))]"
      "k + 1 < length ?ns \<longrightarrow> rp_status rep \<in> {200, 204, 400, 404}"
      "\<exists>resp. fst (ct_Do ct (proxy_request (?ns ! k) rq (if k + 1 < length ?ns then proxy404 else proxyALL)) w0) = Inr resp \<and>
          rp_status rep = up_StatusCode resp \<and> rp_body rep = BlobBody (up_Body resp)"
      using proxy_loop_reply[OF r[unfolded None]] by blast
    have sw: "(if k + 1 < length ?ns then proxy404 else proxyALL) =
        (if k + 1 = length (GetSyncedNodesByRTT gs) then proxyALL else proxy404)" using k(1) by auto
    have st: "rp_status rep \<in> {200, 204, 400, 404} \<or> k + 1 = length (GetSyncedNodesByRTT gs)" using k(1,3) by auto
    have dh: "fst (defaultHandler ct gs rq w) = (rep, None)" using r None by (simp add: defaultHandler_def)
    have nk: "?ns ! k = cl_nodes gs ! (GetSyncedNodesByRTT gs ! k)" using k(1) by simp
    show ?thesis
      unfolding dh prod.case option.case Let_def
      using k(1,2) st k(4)[unfolded sw] unfolding nk length_map by blast
  qed
qed

text \<open>
  C37. Whenever at least one node is synced and the last one in the list answers at all, with
  whatever status, the client gets an answer of a node and no error.
\<close>

theorem defaultHandler_available:
  assumes "GetSyncedNodesByRTT gs \<noteq> []" "node = cl_nodes gs ! last (GetSyncedNodesByRTT gs)"
    and "\<And>w. \<exists>resp w'. ct_Do ct (proxy_request node rq proxyALL) w = (Inr resp, w')"
    and "ct_NewRequest ct (rq_Method rq) (nc_Address (nd_cfg node) @ rq_RequestURI rq) = None"
  shows "snd (fst (defaultHandler ct gs rq w)) = None"
  using assms unfolding defaultHandler_def by (intro proxy_loop_available) (simp_all add: last_map)

theorem defaultHandler_available_witness: "snd (fst (defaultHandler demo_ct demo_proxied demo_rq ())) = None"
  by (rule defaultHandler_available[OF _ refl])
     (simp_all add: demo_proxied_def NewCluster_rest GetSyncedNodesByRTT_def GetCatchupSyncedNodesByRTT_def
       GetArchSyncedNodesByRTT_def demo_ct_def)

text \<open>
  The request sent upstream keeps method and URI and carries the node's token, but never a
  body: two requests that differ in their bodies are the same upstream.
\<close>

theorem proxy_request_shape:
  "(let og = proxy_request node rq ss in
     og_Method og = rq_Method rq \<and> og_URL og = nc_Address (nd_cfg node) @ rq_RequestURI rq \<and>
     (map_of (og_Headers og) ''X-Algo-API-Token'' =
        (if nc_Token (nd_cfg node) = '''' then None else Some (nc_Token (nd_cfg node)))) \<and>
     map_of (og_Headers og) ''User-Agent'' = Some NODE_TAG) \<and>
   ProxyHTTP ct node (rq\<lparr>rq_Body := b\<rparr>) ss w = ProxyHTTP ct node rq ss w"
  by (simp add: proxy_request_def ProxyHTTP_def Let_def)

end
