(* ===== verification/Go_Run.thy ===== *)
theory Go_Run
  imports AVN_Prelude
begin

text \<open>
  Computations that may not return: \<open>None\<close> stands for a run without end, \<open>Some (Panic p)\<close>
  and \<open>Some (Ret x)\<close> for the two ways to end. The counting loop
  \<open>for i := from; i <= to; i++\<close> over \<open>uint64\<close> is such a run, because \<open>i <= to\<close>
  always holds when \<open>to\<close> is the largest value.
\<close>

type_synonym 'a run = "'a go option"

definition run_ret :: "'a \<Rightarrow> 'a run" where
  "run_ret x = Some (Ret x)"

fun run_bind :: "'a run \<Rightarrow> ('a \<Rightarrow> 'b run) \<Rightarrow> 'b run" where
  "run_bind None f = None"
| "run_bind (Some (Panic p)) f = Some (Panic p)"
| "run_bind (Some (Ret x)) f = f x"

lemma run_cases [case_names none panic returns]:
  obtains "m = None" | p where "m = Some (Panic p)" | x where "m = Some (Ret x)"
  by (metis go.exhaust option.exhaust)

lemma run_bind_ret [simp]: "run_bind (run_ret x) f = f x"
  by (simp add: run_ret_def)

lemma run_bind_Ret: "run_bind m f = Some (Ret y) \<longleftrightarrow> (\<exists>x. m = Some (Ret x) \<and> f x = Some (Ret y))"
  by (cases "(m, f)" rule: run_bind.cases) auto

text \<open>Loops that may not end are partial functions; sequencing is monotone in them.\<close>

lemma run_bind_Option: "run_bind m f = Option.bind m (\<lambda>g. case g of Panic p \<Rightarrow> Some (Panic p) | Ret x \<Rightarrow> f x)"
  by (cases "(m, f)" rule: run_bind.cases) auto

lemma run_bind_mono [partial_function_mono]:
  assumes "mono_option B" "\<And>y. mono_option (\<lambda>f. C y f)"
  shows "mono_option (\<lambda>f. run_bind (B f) (\<lambda>y. C y f))"
  unfolding run_bind_Option
proof (rule bind_mono[OF assms(1)])
  fix y
  show "mono_option (\<lambda>f. case y of Panic p \<Rightarrow> Some (Panic p) | Ret x \<Rightarrow> C x f)"
    by (cases y) (simp_all add: option.const_mono assms(2))
qed

partial_function (option) for_loop :: "(u64 \<Rightarrow> 's \<Rightarrow> 's go) \<Rightarrow> u64 \<Rightarrow> u64 \<Rightarrow> 's \<Rightarrow> 's run" where
  "for_loop body i to s =
     (if i \<le> to then (case body i s of Panic p \<Rightarrow> Some (Panic p) | Ret s' \<Rightarrow> for_loop body (i + 1) to s')
      else Some (Ret s))"

text \<open>The reference: the numbers from \<open>i\<close> on, \<open>n\<close> of them.\<close>

primrec go_fold :: "('a \<Rightarrow> 's \<Rightarrow> 's go) \<Rightarrow> 'a list \<Rightarrow> 's \<Rightarrow> 's go" where
  "go_fold body [] s = Ret s"
| "go_fold body (x # xs) s = go_bind (body x s) (go_fold body xs)"

definition rounds_from :: "u64 \<Rightarrow> nat \<Rightarrow> u64 list" where
  "rounds_from i n = map (\<lambda>k. i + of_nat k) [0..<n]"

lemma rounds_from_Suc: "rounds_from i (Suc n) = i # rounds_from (i + 1) n"
  unfolding rounds_from_def upt_conv_Cons[OF zero_less_Suc] map_Suc_upt [symmetric] by (simp add: o_def add.assoc)

lemma for_loop_eq:
  assumes "unat i + n \<le> unat to + 1" "unat to + 1 \<le> unat i + n" "unat to + 1 < 2 ^ 64"
  shows "for_loop body i to s = Some (go_fold body (rounds_from i n) s)"
  using assms(1,2)
proof (induction n arbitrary: i s)
  case 0
  then have "\<not> i \<le> to" by (simp add: word_le_nat_alt)
  then show ?case by (subst for_loop.simps) (simp add: rounds_from_def)
next
  case (Suc n)
  have le: "i \<le> to" using Suc.prems by (simp add: word_le_nat_alt)
  have suc: "unat (i + 1) = unat i + 1" using Suc.prems assms(3) by (simp add: unat_add_lem[THEN iffD1])
  show ?case
  proof (cases "body i s")
    case (Panic p)
    then show ?thesis using le by (subst for_loop.simps) (simp add: rounds_from_Suc)
  next
    case (Ret s')
    have "for_loop body (i + 1) to s' = Some (go_fold body (rounds_from (i + 1) n) s')"
      using Suc.prems suc by (intro Suc.IH) simp_all
    then show ?thesis using le Ret by (subst for_loop.simps) (simp add: rounds_from_Suc)
  qed
qed

end
