(* ===== verification/Prefetch.thy ===== *)
theory Prefetch
  imports Cluster Go_Run
begin

text \<open>
  \<open>internal/algod/prefetch.go\<close>: the detection of an indexer that reads consecutive blocks, and
  the promises made ahead of it. Only the goroutine of \<open>prefetchMonitor\<close> touches
  \<open>bps\<close>. \<open>prefetchDetect\<close> reads the clock up to three times: for a new entry, after the
  promises and for the pruning.

  The lemmas show that pruning is a filter, that a batch of promises ends and starts exactly
  one load per round, and when a batch starts.
\<close>

section \<open>Definitions\<close>

definition BP_COUNT :: u64 where
  "BP_COUNT = 30"

definition bpSink_cap :: nat where
  "bpSink_cap = 100"

text \<open>A send that gives up when the channel is full.\<close>

definition prefetchNotify :: "u64 \<Rightarrow> 'l NodeCluster \<Rightarrow> 'l NodeCluster" where
  "prefetchNotify rnd gs =
     (if length (cl_bpSink gs) < bpSink_cap then gs\<lparr>cl_bpSink := cl_bpSink gs @ [rnd]\<rparr> else gs)"

definition expired :: "instant \<Rightarrow> BlockPrefetch \<Rightarrow> bool" where
  "expired expire b = (bp_LastPreAt b < expire)"

fun prune_full :: "instant \<Rightarrow> BlockPrefetch list \<Rightarrow> BlockPrefetch list" where
  "prune_full expire [] = []"
| "prune_full expire (b # bs) = (if expired expire b then prune_full expire bs else b # prune_full expire bs)"

text \<open>The optimistic loop: the full pruning runs at the first expired entry, if there is one.\<close>

fun prune_scan :: "instant \<Rightarrow> BlockPrefetch list \<Rightarrow> BlockPrefetch list \<Rightarrow> BlockPrefetch list" where
  "prune_scan expire bps [] = bps"
| "prune_scan expire bps (b # bs) = (if expired expire b then prune_full expire bps else prune_scan expire bps bs)"

definition prefetchPrune :: "instant \<Rightarrow> 'l NodeCluster \<Rightarrow> 'l NodeCluster" where
  "prefetchPrune now gs = gs\<lparr>cl_bps := prune_scan (now - 60 * second) (cl_bps gs) (cl_bps gs)\<rparr>"

fun find_bp :: "u64 \<Rightarrow> BlockPrefetch list \<Rightarrow> nat \<Rightarrow> nat option" where
  "find_bp rnd [] k = None"
| "find_bp rnd (bp # bps) k =
     (if rnd \<ge> bp_FirstReq bp \<and> rnd \<le> bp_LastReq bp + 1 then Some k else find_bp rnd bps (Suc k))"

definition new_bp :: "instant \<Rightarrow> u64 \<Rightarrow> BlockPrefetch" where
  "new_bp now rnd =
     \<lparr>bp_FirstReq = rnd, bp_LastReq = rnd, bp_LastPre = rnd, bp_NextPre = 0, bp_Hits = 0, bp_LastPreAt = now\<rparr>"

definition promise_in :: "'l lru \<Rightarrow> u64 \<Rightarrow> 'l NodeCluster \<Rightarrow> 'l NodeCluster go" where
  "promise_in lru i gs =
     (case cl_ucache gs of
        None \<Rightarrow> Panic NilDeref
      | Some u \<Rightarrow> go_bind (PromiseBlock lru u i) (\<lambda>(_, u'). Ret (gs\<lparr>cl_ucache := Some u'\<rparr>)))"

text \<open>The body of the first batch asks for the requested round, not for the one it promises.\<close>

definition promise_first :: "'l lru \<Rightarrow> u64 \<Rightarrow> u64 \<Rightarrow> 'l NodeCluster \<Rightarrow> 'l NodeCluster go" where
  "promise_first lru rnd i gs =
     go_bind (isBlockCached lru rnd gs) (\<lambda>cached. if \<not> cached then promise_in lru i gs else Ret gs)"

definition set_bp :: "nat \<Rightarrow> BlockPrefetch \<Rightarrow> 'l NodeCluster \<Rightarrow> 'l NodeCluster" where
  "set_bp k b gs = gs\<lparr>cl_bps := (cl_bps gs)[k := b]\<rparr>"

definition prefetch_batch :: "'l lru \<Rightarrow> instant \<Rightarrow> u64 \<Rightarrow> nat \<Rightarrow> 'l NodeCluster \<Rightarrow> 'l NodeCluster run" where
  "prefetch_batch lru t_pre rnd k gs =
     (let bpf = cl_bps gs ! k in
      if bp_Hits bpf > 2 then
        if bp_NextPre bpf = 0 then
          let preFrom = bp_LastPre bpf + 1; preTo = bp_LastPre bpf + BP_COUNT in
          run_bind (for_loop (promise_first lru rnd) preFrom preTo gs) (\<lambda>gs'.
            run_ret (set_bp k (bpf\<lparr>bp_LastPre := preTo, bp_LastPreAt := t_pre,
                                   bp_NextPre := rnd + BP_COUNT div 2\<rparr>) gs'))
        else if rnd > bp_NextPre bpf then
          let preFrom = bp_LastPre bpf + 1; preTo = bp_LastPre bpf + BP_COUNT div 2 in
          run_bind (for_loop (promise_in lru) preFrom preTo gs) (\<lambda>gs'.
            run_ret (set_bp k (bpf\<lparr>bp_LastPre := preTo, bp_LastPreAt := t_pre,
                                   bp_NextPre := bp_NextPre bpf + BP_COUNT div 2\<rparr>) gs'))
        else run_ret gs
      else run_ret gs)"

text \<open>The entry that the request belongs to, with the request counted.\<close>

definition count_request :: "instant \<Rightarrow> u64 \<Rightarrow> 'l NodeCluster \<Rightarrow> nat \<times> 'l NodeCluster" where
  "count_request t_new rnd gs =
     (let (k, bps) = (case find_bp rnd (cl_bps gs) 0 of
                        Some k \<Rightarrow> (k, cl_bps gs)
                      | None \<Rightarrow> (length (cl_bps gs), cl_bps gs @ [new_bp t_new rnd]))
      in (k, gs\<lparr>cl_bps := bps[k := (bps ! k)\<lparr>bp_LastReq := rnd, bp_Hits := bp_Hits (bps ! k) + 1\<rparr>]\<rparr>))"

definition prefetchDetect ::
  "'l lru \<Rightarrow> instant \<Rightarrow> instant \<Rightarrow> instant \<Rightarrow> u64 \<Rightarrow> 'l NodeCluster \<Rightarrow> 'l NodeCluster run" where
  "prefetchDetect lru t_new t_pre t_prune rnd gs =
     (let (k, gs1) = count_request t_new rnd gs in
      run_bind (prefetch_batch lru t_pre rnd k gs1) (\<lambda>gs2. run_ret (prefetchPrune t_prune gs2)))"

text \<open>One turn of the loop of \<open>prefetchMonitor\<close>: a request is taken from the channel.\<close>

definition prefetchMonitor_step ::
  "'l lru \<Rightarrow> instant \<Rightarrow> instant \<Rightarrow> instant \<Rightarrow> 'l NodeCluster \<Rightarrow> 'l NodeCluster run" where
  "prefetchMonitor_step lru t_new t_pre t_prune gs =
     (case cl_bpSink gs of
        [] \<Rightarrow> run_ret gs
      | rnd # rest \<Rightarrow> prefetchDetect lru t_new t_pre t_prune rnd (gs\<lparr>cl_bpSink := rest\<rparr>))"

section \<open>Pruning\<close>

lemma prune_full_eq: "prune_full expire bs = filter (\<lambda>b. \<not> expired expire b) bs"
  by (induction bs) auto

lemma prune_scan_eq:
  "prune_scan expire bps bs = (if \<exists>b \<in> set bs. expired expire b then prune_full expire bps else bps)"
  by (induction bs) auto

lemma prefetchPrune_eq:
  "prefetchPrune now gs = gs\<lparr>cl_bps := filter (\<lambda>b. \<not> expired (now - 60 * second) b) (cl_bps gs)\<rparr>"
proof -
  have "filter (\<lambda>b. \<not> expired t b) (cl_bps gs) = cl_bps gs" if "\<not> (\<exists>b \<in> set (cl_bps gs). expired t b)" for t
    using that by (intro filter_True) auto
  then show ?thesis by (auto simp: prefetchPrune_def prune_scan_eq prune_full_eq)
qed

section \<open>Batches\<close>

lemma find_bp_SomeD:
  "find_bp rnd bps k = Some j \<Longrightarrow>
     k \<le> j \<and> j < k + length bps \<and> bp_FirstReq (bps ! (j - k)) \<le> rnd \<and> rnd \<le> bp_LastReq (bps ! (j - k)) + 1"
proof (induction bps arbitrary: k)
  case (Cons bp bps)
  show ?case
  proof (cases "rnd \<ge> bp_FirstReq bp \<and> rnd \<le> bp_LastReq bp + 1")
    case True
    with Cons.prems show ?thesis by simp
  next
    case False
    then have "find_bp rnd bps (Suc k) = Some j" using Cons.prems by (simp split: if_splits)
    from Cons.IH[OF this] show ?thesis by (auto simp: nth_Cons' Suc_le_eq)
  qed
qed simp

lemma count_request_valid: "count_request t rnd gs = (k, gs1) \<Longrightarrow> k < length (cl_bps gs1)"
  by (auto simp: count_request_def Let_def dest!: find_bp_SomeD split: option.splits prod.splits)

lemma count_request_frame:
  "count_request t rnd gs = (k, gs1) \<Longrightarrow> \<exists>bps. gs1 = gs\<lparr>cl_bps := bps\<rparr>"
  by (auto simp: count_request_def Let_def split: option.splits)

context lru_ops
begin

lemma promise_in_fold:
  assumes "cl_ucache gs = Some u" "uc_ok lru linv u"
  shows "\<exists>u'. go_fold (promise_in lru) rs gs = Ret (gs\<lparr>cl_ucache := Some u'\<rparr>) \<and> uc_ok lru linv u' \<and>
    store_le (uc_store u) (uc_store u') \<and> uc_loads u' = uc_loads u @ rs"
  using assms
proof (induction rs arbitrary: gs u)
  case Nil
  then show ?case by (intro exI[of _ u]) simp
next
  case (Cons r rs)
  obtain a u1 where p: "PromiseBlock lru u r = Ret (a, u1)" "uc_ok lru linv u1"
    "store_le (uc_store u) (uc_store u1)" "uc_loads u1 = uc_loads u @ [r]"
    using PromiseBlock_ok[OF Cons.prems(2), of r] by blast
  have step: "promise_in lru r gs = Ret (gs\<lparr>cl_ucache := Some u1\<rparr>)"
    using p(1) Cons.prems(1) by (simp add: promise_in_def)
  obtain u2 where "go_fold (promise_in lru) rs (gs\<lparr>cl_ucache := Some u1\<rparr>) =
      Ret (gs\<lparr>cl_ucache := Some u1\<rparr>\<lparr>cl_ucache := Some u2\<rparr>)"
    "uc_ok lru linv u2" "store_le (uc_store u1) (uc_store u2)" "uc_loads u2 = uc_loads u1 @ rs"
    using Cons.IH[of "gs\<lparr>cl_ucache := Some u1\<rparr>" u1] p(2) by auto
  with step p store_le_trans[of "uc_store u" "uc_store u1" "uc_store u2"] show ?case by auto
qed

text \<open>A promise never makes a round cached.\<close>

lemma PromiseBlock_not_cached:
  assumes "uc_ok lru linv u" "IsBlockCached lru u r = Ret False" "PromiseBlock lru u i = Ret (a, u')"
  shows "IsBlockCached lru u' r = Ret False"
proof -
  let ?w = "getCacheWithPeek lru u i"
  have ok': "uc_ok lru linv u'"
    and v: "uc_view lru ?w u' i = Some (spec_promise (uc_view lru ?w u i))"
      "evict_le i (uc_view lru ?w u) (uc_view lru ?w u')"
      "uc_view lru (other_cache ?w) u' = uc_view lru (other_cache ?w) u"
    using PromiseBlock_ok[OF assms(1), of i] assms(3) by (auto simp: Let_def)
  have none: "uc_view lru w u r \<noteq> Some (Some b, e)" for w b e
    using assms(2) IsBlockCached_ok[OF assms(1)] by auto
  have sel: "uc_view lru ?w u' r \<noteq> Some (Some b, e)" for b e
  proof (cases "r = i")
    case True
    have "a = None" if "uc_view lru ?w u r = Some (a, e)" for a e using none[of ?w] that by (cases a) auto
    then have "fst (spec_promise (uc_view lru ?w u r)) = None"
      by (cases "uc_view lru ?w u r" rule: spec_promise.cases) auto
    then show ?thesis using v(1) True by (metis fst_conv option.distinct(1) option.inject)
  next
    case False
    then have "uc_view lru ?w u' r = None \<or> uc_view lru ?w u' r = uc_view lru ?w u r"
      using v(2) by (auto simp: evict_le_def)
    then show ?thesis using none[of ?w] by auto
  qed
  have "uc_view lru w u' r \<noteq> Some (Some b, e)" for w b e
  proof (cases "w = ?w")
    case False
    then have "w = other_cache ?w" by (cases w; cases ?w) simp_all
    then show ?thesis using v(3) none by simp
  qed (use sel in simp)
  then show ?thesis using IsBlockCached_ok[OF ok', of r] by auto
qed

lemma promise_first_fold:
  assumes "cl_ucache gs = Some u" "uc_ok lru linv u" "IsBlockCached lru u rnd = Ret c"
  shows "go_fold (promise_first lru rnd) rs gs = (if c then Ret gs else go_fold (promise_in lru) rs gs)"
  using assms
proof (induction rs arbitrary: gs u)
  case (Cons r rs)
  show ?case
  proof (cases c)
    case True
    then have "promise_first lru rnd r gs = Ret gs"
      using Cons.prems by (simp add: promise_first_def isBlockCached_def)
    then show ?thesis using Cons.IH[OF Cons.prems] True by simp
  next
    case False
    obtain a u1 where p: "PromiseBlock lru u r = Ret (a, u1)" "uc_ok lru linv u1"
      using PromiseBlock_ok[OF Cons.prems(2), of r] by blast
    have nc: "IsBlockCached lru u1 rnd = Ret c"
      using PromiseBlock_not_cached[OF Cons.prems(2) _ p(1)] Cons.prems(3) False by simp
    have step: "promise_in lru r gs = Ret (gs\<lparr>cl_ucache := Some u1\<rparr>)"
      using p(1) Cons.prems(1) by (simp add: promise_in_def)
    have "promise_first lru rnd r gs = promise_in lru r gs"
      using Cons.prems False by (simp add: promise_first_def isBlockCached_def)
    then show ?thesis
      using step Cons.IH[of "gs\<lparr>cl_ucache := Some u1\<rparr>" u1] p(2) nc False by simp
  qed
qed simp

end

lemma unat_plus_small: "unat x + n < 2 ^ 64 \<Longrightarrow> unat (x + of_nat n :: u64) = unat x + n"
  by (simp add: unat_word_ariths unat_of_nat)

lemma batch_loop:
  assumes "unat (x :: u64) + n + 1 < 2 ^ 64"
  shows "for_loop body (x + 1) (x + of_nat n) s = Some (go_fold body (rounds_from (x + 1) n) s)"
proof (rule for_loop_eq)
  have "unat (x + 1) = unat x + 1" using assms unat_plus_small[of x 1] by simp
  moreover have "unat (x + of_nat n) = unat x + n" using assms by (intro unat_plus_small) simp
  ultimately show "unat (x + 1) + n \<le> unat (x + of_nat n) + 1" "unat (x + of_nat n) + 1 \<le> unat (x + 1) + n"
    "unat (x + of_nat n) + 1 < 2 ^ 64" using assms by simp_all
qed

section \<open>The whole detection\<close>

text \<open>The rounds that a request makes the cluster load, and the entry afterwards.\<close>

definition planned :: "u64 \<Rightarrow> bool \<Rightarrow> BlockPrefetch \<Rightarrow> u64 list" where
  "planned rnd cached bpf =
     (if bp_Hits bpf > 2 then
        if bp_NextPre bpf = 0 then if cached then [] else rounds_from (bp_LastPre bpf + 1) 30
        else if rnd > bp_NextPre bpf then rounds_from (bp_LastPre bpf + 1) 15 else []
      else [])"

definition next_bp :: "instant \<Rightarrow> u64 \<Rightarrow> BlockPrefetch \<Rightarrow> BlockPrefetch" where
  "next_bp t_pre rnd bpf =
     (if bp_Hits bpf > 2 then
        if bp_NextPre bpf = 0
        then bpf\<lparr>bp_LastPre := bp_LastPre bpf + 30, bp_LastPreAt := t_pre, bp_NextPre := rnd + 15\<rparr>
        else if rnd > bp_NextPre bpf
        then bpf\<lparr>bp_LastPre := bp_LastPre bpf + 15, bp_LastPreAt := t_pre, bp_NextPre := bp_NextPre bpf + 15\<rparr>
        else bpf
      else bpf)"

lemma BP_half: "BP_COUNT div 2 = 15"
  by (simp add: BP_COUNT_def)

context lru_ops
begin

lemma prefetch_batch_ok:
  assumes u: "cl_ucache gs = Some u" "uc_ok lru linv u" and c: "IsBlockCached lru u rnd = Ret c"
    and room: "unat (bp_LastPre (cl_bps gs ! k)) + 31 < 2 ^ 64"
  shows "\<exists>u'. prefetch_batch lru t_pre rnd k gs =
      Some (Ret (gs\<lparr>cl_ucache := Some u', cl_bps := (cl_bps gs)[k := next_bp t_pre rnd (cl_bps gs ! k)]\<rparr>)) \<and>
    uc_ok lru linv u' \<and> store_le (uc_store u) (uc_store u') \<and>
    uc_loads u' = uc_loads u @ planned rnd c (cl_bps gs ! k)"
proof -
  let ?b = "cl_bps gs ! k"
  have loop30: "for_loop body (bp_LastPre ?b + 1) (bp_LastPre ?b + 30) gs =
      Some (go_fold body (rounds_from (bp_LastPre ?b + 1) 30) gs)" for body
    using batch_loop[of "bp_LastPre ?b" 30 body gs] room by simp
  have loop15: "for_loop body (bp_LastPre ?b + 1) (bp_LastPre ?b + 15) gs =
      Some (go_fold body (rounds_from (bp_LastPre ?b + 1) 15) gs)" for body
    using batch_loop[of "bp_LastPre ?b" 15 body gs] room by simp
  have same: "gs\<lparr>cl_ucache := Some u, cl_bps := (cl_bps gs)[k := ?b]\<rparr> = gs" using u(1) by simp
  consider (idle) "next_bp t_pre rnd ?b = ?b" "planned rnd c ?b = []" "prefetch_batch lru t_pre rnd k gs = run_ret gs"
    | (first) "bp_Hits ?b > 2" "bp_NextPre ?b = 0"
    | (later) "bp_Hits ?b > 2" "bp_NextPre ?b \<noteq> 0" "rnd > bp_NextPre ?b"
    by (cases "bp_Hits ?b > 2"; cases "bp_NextPre ?b = 0"; cases "rnd > bp_NextPre ?b")
       (auto simp: next_bp_def planned_def prefetch_batch_def Let_def)
  then show ?thesis
  proof cases
    case idle
    then show ?thesis using u same by (intro exI[of _ u]) (simp add: run_ret_def)
  next
    case first
    have f: "go_fold (promise_first lru rnd) (rounds_from (bp_LastPre ?b + 1) 30) gs =
        (if c then Ret gs else go_fold (promise_in lru) (rounds_from (bp_LastPre ?b + 1) 30) gs)"
      using promise_first_fold[OF u c] .
    show ?thesis
    proof (cases c)
      case True
      then show ?thesis
        using u first f by (intro exI[of _ u])
          (simp add: prefetch_batch_def Let_def BP_half BP_COUNT_def loop30 set_bp_def next_bp_def planned_def run_ret_def)
    next
      case False
      then show ?thesis
        using u first f promise_in_fold[OF u, of "rounds_from (bp_LastPre ?b + 1) 30"]
        by (auto simp: prefetch_batch_def Let_def BP_half BP_COUNT_def loop30 set_bp_def next_bp_def planned_def run_ret_def)
    qed
  next
    case later
    then show ?thesis
      using u promise_in_fold[OF u, of "rounds_from (bp_LastPre ?b + 1) 15"]
      by (auto simp: prefetch_batch_def Let_def BP_half loop15 set_bp_def next_bp_def planned_def run_ret_def)
  qed
qed

end

section \<open>Properties\<close>

text \<open>A cluster on an empty cache in which two requests of rounds 100 and 101 were seen.\<close>

definition demo_bp :: BlockPrefetch where
  "demo_bp = \<lparr>bp_FirstReq = 100, bp_LastReq = 101, bp_LastPre = 100, bp_NextPre = 0, bp_Hits = 2, bp_LastPreAt = 0\<rparr>"

definition demo_cluster :: "lru_list NodeCluster" where
  "demo_cluster = (NewCluster 0 (Some (New lru_list_ops)) \<lparr>al_Nodes = [], al_Http = None, al_Https = None, al_Cache = 0,
      al_RateLimit = 0, al_Tokens = []\<rparr>)\<lparr>cl_latestRound := 500, cl_bps := [demo_bp]\<rparr>"

lemma demo_cluster_sel: "cl_ucache demo_cluster = Some (New lru_list_ops)" "cl_bps demo_cluster = [demo_bp]"
  by (simp_all add: demo_cluster_def NewCluster_def)

text \<open>
  C32. \<open>prefetchDetect\<close> returns and starts exactly the planned loads, one per round and in
  order: none before the third request of a sequence; then the 30 rounds after the last one
  prefetched, unless the requested round itself is cached, in which case none although the entry advances all the same; later
  15 more whenever the requests pass the next mark. The cache invariant is kept.
\<close>

theorem prefetchDetect_spec:
  assumes "lru_contract lru linv cap" "cl_ucache gs = Some u" "uc_ok lru linv u"
    and "IsBlockCached lru u rnd = Ret cached"
    and "count_request t_new rnd gs = (k, gs1)" "unat (bp_LastPre (cl_bps gs1 ! k)) + 31 < 2 ^ 64"
  shows "\<exists>gs' u'. prefetchDetect lru t_new t_pre t_prune rnd gs = Some (Ret gs') \<and> cl_ucache gs' = Some u' \<and>
    uc_ok lru linv u' \<and> uc_loads u' = uc_loads u @ planned rnd cached (cl_bps gs1 ! k) \<and>
    cl_bps gs' = filter (\<lambda>b. t_prune - 60 * second \<le> bp_LastPreAt b)
      ((cl_bps gs1)[k := next_bp t_pre rnd (cl_bps gs1 ! k)])"
proof -
  note ops = lru_contract.axioms(1)[OF assms(1)]
  have u1: "cl_ucache gs1 = Some u" using count_request_frame[OF assms(5)] assms(2) by auto
  obtain u' where "prefetch_batch lru t_pre rnd k gs1 =
      Some (Ret (gs1\<lparr>cl_ucache := Some u', cl_bps := (cl_bps gs1)[k := next_bp t_pre rnd (cl_bps gs1 ! k)]\<rparr>))"
    "uc_ok lru linv u'" "uc_loads u' = uc_loads u @ planned rnd cached (cl_bps gs1 ! k)"
    using lru_ops.prefetch_batch_ok[OF ops u1 assms(3,4,6), of t_pre] by blast
  then show ?thesis
    using assms(5) by (simp add: prefetchDetect_def run_ret_def prefetchPrune_eq expired_def not_less)
qed

theorem prefetchDetect_spec_witness:
  "\<exists>gs' u'. prefetchDetect lru_list_ops 0 5 5 102 demo_cluster = Some (Ret gs') \<and> cl_ucache gs' = Some u' \<and>
     uc_loads u' = rounds_from 101 30"
proof -
  let ?gs1 = "demo_cluster\<lparr>cl_bps := [demo_bp\<lparr>bp_LastReq := 102, bp_Hits := 3\<rparr>]\<rparr>"
  note ok = lrul.New_uc_ok
  have nc: "IsBlockCached lru_list_ops (New lru_list_ops) 102 = Ret False"
    by (simp add: IsBlockCached_def bc_IsBlockCached_def New_def lru_list_ops_def lrul_Peek_def lrul_New_def)
  have cr: "count_request 0 102 demo_cluster = (0, ?gs1)"
    by (simp add: count_request_def demo_cluster_sel) (simp add: demo_bp_def)
  have room: "unat (bp_LastPre (cl_bps ?gs1 ! 0)) + 31 < 2 ^ 64" by (simp add: demo_bp_def)
  have pl: "planned 102 False (cl_bps ?gs1 ! 0) = rounds_from 101 30" by (simp add: planned_def demo_bp_def)
  have ld: "uc_loads (New lru_list_ops) = []" by (simp add: New_def)
  show ?thesis
    using prefetchDetect_spec[OF lrul.lru_contract_axioms demo_cluster_sel(1) ok nc cr room, of 5 5]
    unfolding pl ld by auto
qed

end
