(* ===== verification/Httpsrv.thy ===== *)
theory Httpsrv
  imports Proxy Prefetch
begin

text \<open>
  \<open>internal/httpsrv\<close>: the authentication middleware, the handlers and the assembly of the two
  servers, with \<open>GetBlock\<close> and \<open>WaitForStatusAfter\<close> of \<open>internal/algod/cluster.go\<close>, which
  the handlers call. What blocks comes in as its outcome: the statuses that a broadcast
  listener receives before its context is done, and the result of the block lookup
  with the state of the request's context.
\<close>

section \<open>The cluster as the handlers see it\<close>

text \<open>
  The messages are those that the registered channel receives, in order; the end of the list
  is the end of the context. A nil status in the broadcast is a nil dereference.
\<close>

fun wait_loop :: "u64 \<Rightarrow> models_NodeStatus option list \<Rightarrow> models_NodeStatus option go" where
  "wait_loop rnd [] = Ret None"
| "wait_loop rnd (None # ms) = Panic NilDeref"
| "wait_loop rnd (Some st # ms) = (if ns_LastRound st > rnd then Ret (Some st) else wait_loop rnd ms)"

definition WaitForStatusAfter ::
  "u64 \<Rightarrow> 'l NodeCluster \<Rightarrow> models_NodeStatus option list \<Rightarrow> models_NodeStatus option go" where
  "WaitForStatusAfter rnd gs msgs =
     (let lr = cl_latestRound gs;
          lrStatus = (case cl_lastSrc gs of Some i \<Rightarrow> nd_lastStatus (cl_nodes gs ! i) | None \<Rightarrow> None)
      in if lrStatus \<noteq> None \<and> lr > rnd then Ret lrStatus else wait_loop rnd msgs)"

text \<open>The listener that logs every broadcast round; it reads the same pointer without a test.\<close>

fun broadcastListener :: "models_NodeStatus option list \<Rightarrow> u64 list go" where
  "broadcastListener [] = Ret []"
| "broadcastListener (None # ms) = Panic NilDeref"
| "broadcastListener (Some st # ms) = go_bind (broadcastListener ms) (\<lambda>rs. Ret (ns_LastRound st # rs))"

text \<open>\<open>GetBlock\<close> of the cluster up to the point where the lookup has returned or is blocked.\<close>

definition GetBlock ::
  "'l lru \<Rightarrow> u64 \<Rightarrow> bool \<Rightarrow> 'l NodeCluster \<Rightarrow> (goerror + (gb_pc \<times> 'l NodeCluster)) go" where
  "GetBlock lru rnd msgp gs =
     (if isBlockInTheFuture rnd gs then Ret (Inl ledger_error)
      else
        let gs1 = (if msgp then prefetchNotify rnd gs else gs) in
        case cl_ucache gs1 of
          None \<Rightarrow> Panic NilDeref
        | Some u \<Rightarrow>
            go_bind (gb_run 9 lru rnd GB_Catchup1 u) (\<lambda>(pc, u').
              Ret (Inr (pc, gs1\<lparr>cl_ucache := Some u'\<rparr>))))"

section \<open>Authentication\<close>

record authMiddleware =
  au_header :: string
  au_tokens :: "byte list list"

definition MakeAuth :: "string \<Rightarrow> string list \<Rightarrow> authMiddleware" where
  "MakeAuth header tokens = \<lparr>au_header = header, au_tokens = map bytes_of tokens\<rparr>"

definition urlAuth :: "string \<Rightarrow> string" where
  "urlAuth token = ''/urlAuth/'' @ token"

text \<open>The token that a request presents: the header, or else a bearer token, or else the one in the path.\<close>

definition header_token :: "authMiddleware \<Rightarrow> request \<Rightarrow> string" where
  "header_token auth rq =
     (let provided = rq_Header rq (au_header auth) in
      if length provided = 0 then
        (let authentication = SplitN2 (CHR '' '') (rq_Header rq ''Authorization'') in
         if length authentication = 2 \<and> EqualFold ''Bearer'' (authentication ! 0) then authentication ! 1
         else provided)
      else provided)"

text \<open>
  The middleware: whether the next handler is called, otherwise the answer is 401, and the request as it is left.
\<close>

definition auth_handler :: "authMiddleware \<Rightarrow> request \<Rightarrow> bool \<times> request" where
  "auth_handler auth rq =
     (if rq_Method rq = ''OPTIONS'' then (True, rq)
      else
        let provided = header_token auth rq;
            (token, rq') =
              (if rq_Param rq ''token'' \<noteq> ''''
               then let token = rq_Param rq ''token''
                    in (token, rq\<lparr>rq_Path := TrimPrefix (rq_Path rq) (urlAuth token)\<rparr>)
               else (provided, rq))
        in (list_ex (\<lambda>t. bytes_of token = t) (au_tokens auth), rq'))"

section \<open>Handlers\<close>

text \<open>What both handlers do with the \<open>round\<close> parameter.\<close>

definition parse_round :: "request \<Rightarrow> u64 option" where
  "parse_round rq =
     (let rnd = rq_Param rq ''round'' in
      case ParseInt rnd of
        None \<Rightarrow> None
      | Some n \<Rightarrow> if rnd = '''' \<or> n < 0 then None else Some (word_of_int n))"

definition waitHandler ::
  "(u64 \<Rightarrow> models_NodeStatus option \<times> goerror option) \<Rightarrow> request \<Rightarrow> reply" where
  "waitHandler wait rq =
     (case parse_round rq of
        None \<Rightarrow> jsonError 400 ''Invalid round value''
      | Some rnd \<Rightarrow>
          (case wait rnd of (status, ctx_err) \<Rightarrow>
             if ctx_err \<noteq> None \<and> err_kind (the ctx_err) = DeadlineExceeded then jsonError 503 ''timeout''
             else (case status of
                     None \<Rightarrow> jsonError 500 ''Error waiting for round''
                   | Some st \<Rightarrow> \<lparr>rp_status = 200, rp_type = ''application/json'', rp_headers = [],
                                 rp_body = StatusBody st\<rparr>)))"

datatype BlockFormat = BFMsgPack | BFNodeJson | BFIdxJson

fun block_reply :: "BlockFormat \<Rightarrow> BlockWrap \<Rightarrow> reply" where
  "block_reply BFMsgPack b =
     \<lparr>rp_status = 200, rp_type = ''application/msgpack'', rp_headers = [(''X-Algorand-Struct'', ''block-v1'')],
      rp_body = BlobBody (bw_BlockMsgPack b)\<rparr>"
| "block_reply BFNodeJson b =
     \<lparr>rp_status = 200, rp_type = ''application/json'', rp_headers = [], rp_body = BlobBody (bytes_of (bw_BlockJsonNode b))\<rparr>"
| "block_reply BFIdxJson b =
     \<lparr>rp_status = 200, rp_type = ''application/json'', rp_headers = [], rp_body = BlobBody (bytes_of (bw_BlockJsonIdx b))\<rparr>"

text \<open>The answer for the result of \<open>GetBlock\<close> and the error of the request's context.\<close>

definition blocks_answer ::
  "BlockFormat \<Rightarrow> BlockWrap option \<times> goerror option \<times> goerror option \<Rightarrow> reply" where
  "blocks_answer format res =
     (case res of (block, err, ctx_err) \<Rightarrow>
        if ctx_err \<noteq> None \<and> err_kind (the ctx_err) = DeadlineExceeded then jsonError 503 ''timeout''
        else (case err of
                Some e \<Rightarrow> jsonError 500 (err_msg e)
              | None \<Rightarrow>
                  (case block of
                     Some b \<Rightarrow> block_reply format b
                   | None \<Rightarrow> \<lparr>rp_status = 204, rp_type = ''application/json'', rp_headers = [], rp_body = NullBody\<rparr>)))"

definition blocksHandler ::
  "(u64 \<Rightarrow> bool \<Rightarrow> BlockWrap option \<times> goerror option \<times> goerror option) \<Rightarrow> BlockFormat \<Rightarrow> request \<Rightarrow> reply" where
  "blocksHandler getBlock format rq =
     (case parse_round rq of
        None \<Rightarrow> jsonError 400 ''Invalid round value''
      | Some rnd \<Rightarrow> blocks_answer format (getBlock rnd (format = BFMsgPack)))"

text \<open>The \<open>format\<close> parameter, bound by the web framework; \<open>lower\<close> is Unicode lower case beyond ASCII.\<close>

definition block_format :: "(string \<Rightarrow> string) \<Rightarrow> request \<Rightarrow> reply + BlockFormat" where
  "block_format lower rq =
     (case rq_Format rq of
        Inl err \<Rightarrow> Inl (jsonError 400 (''Invalid format for parameter format: '' @ err_msg err))
      | Inr f \<Rightarrow>
          let formatStr = ToLower lower (case f of None \<Rightarrow> ''json'' | Some s \<Rightarrow> s) in
          if formatStr = ''json'' then Inr BFNodeJson
          else if formatStr = ''msgpack'' \<or> formatStr = ''msgp'' then Inr BFMsgPack
          else if formatStr = ''idx'' \<or> formatStr = ''indexer'' then Inr BFIdxJson
          else Inl (jsonError 400 (''Invalid format: '' @ formatStr)))"

definition blockHandlerWrap ::
  "(string \<Rightarrow> string) \<Rightarrow> (u64 \<Rightarrow> bool \<Rightarrow> BlockWrap option \<times> goerror option \<times> goerror option) \<Rightarrow> request \<Rightarrow> reply" where
  "blockHandlerWrap lower getBlock rq =
     (case block_format lower rq of Inl rep \<Rightarrow> rep | Inr format \<Rightarrow> blocksHandler getBlock format rq)"

definition blockIdxHandlerWrap ::
  "(u64 \<Rightarrow> bool \<Rightarrow> BlockWrap option \<times> goerror option \<times> goerror option) \<Rightarrow> request \<Rightarrow> reply" where
  "blockIdxHandlerWrap getBlock rq = blocksHandler getBlock BFIdxJson rq"

section \<open>Servers\<close>

datatype handler = WaitHandler | BlockHandlerWrap | DefaultHandler | BlockIdxHandlerWrap

record route =
  rt_method :: string
  rt_pattern :: string
  rt_handler :: handler
  rt_middleware :: "authMiddleware list"

definition mk_route :: "string \<Rightarrow> string \<Rightarrow> handler \<Rightarrow> authMiddleware list \<Rightarrow> route" where
  "mk_route m p h a = \<lparr>rt_method = m, rt_pattern = p, rt_handler = h, rt_middleware = a\<rparr>"

definition RegisterAlgodHandlers :: "authMiddleware list \<Rightarrow> route list" where
  "RegisterAlgodHandlers m =
     [mk_route ''GET'' ''/v2/status/wait-for-block-after/:round'' WaitHandler m,
      mk_route ''GET'' ''/v2/blocks/:round'' BlockHandlerWrap m,
      mk_route ''GET'' ''/v2/blocks/:round/transactions'' DefaultHandler m,
      mk_route ''GET'' ''/*'' DefaultHandler m,
      mk_route ''POST'' ''/*'' DefaultHandler m,
      mk_route ''HEAD'' ''/*'' DefaultHandler m,
      mk_route ''OPTIONS'' ''/*'' DefaultHandler m,
      mk_route ''GET'' ''/health'' DefaultHandler []]"

definition RegisterIdxHandlers :: "authMiddleware list \<Rightarrow> route list" where
  "RegisterIdxHandlers m = [mk_route ''GET'' ''/v2/blocks/:round'' BlockIdxHandlerWrap m]"

datatype middleware = Logger string | Recover | CORS | Gzip | RateLimiter int

record http2_server =
  h2_MaxConcurrentStreams :: nat
  h2_MaxReadFrameSize :: nat
  h2_IdleTimeout :: duration

definition h2s :: http2_server where
  "h2s = \<lparr>h2_MaxConcurrentStreams = 250, h2_MaxReadFrameSize = 1048576, h2_IdleTimeout = 10 * second\<rparr>"

text \<open>The handler of a server is the router, behind HTTP/2 without TLS where the configuration asks for it.\<close>

record server =
  sv_Addr :: string
  sv_ReadTimeout :: duration
  sv_MaxHeaderBytes :: int
  sv_h2c :: "http2_server option"
  sv_use :: "middleware list"
  sv_routes :: "route list"

definition new_server :: "HttpCfg option \<Rightarrow> middleware list \<Rightarrow> route list \<Rightarrow> server go" where
  "new_server http use routes =
     (case http of
        None \<Rightarrow> Panic NilDeref
      | Some h \<Rightarrow> Ret \<lparr>sv_Addr = hc_Listen h, sv_ReadTimeout = 15 * second, sv_MaxHeaderBytes = 1048576,
                      sv_h2c = (if hc_H2C h then Some h2s else None), sv_use = use, sv_routes = routes\<rparr>)"

definition server_middleware :: "string \<Rightarrow> int \<Rightarrow> middleware list" where
  "server_middleware name limit =
     [Logger name, Recover, CORS, Gzip] @ (if limit > 0 then [RateLimiter limit] else [])"

definition NewAlgodProxy :: "AlgodCfg \<Rightarrow> server go" where
  "NewAlgodProxy cfg =
     (let auth = (if length (al_Tokens cfg) > 0 then [MakeAuth ''X-Algo-API-Token'' (al_Tokens cfg)] else [])
      in new_server (al_Http cfg) (server_middleware ''Algod API'' (al_RateLimit cfg)) (RegisterAlgodHandlers auth))"

definition NewIndexerProxy :: "IdxCfg \<Rightarrow> server go" where
  "NewIndexerProxy cfg =
     (let auth = (if length (ix_Tokens cfg) > 0 then [MakeAuth ''X-Indexer-API-Token'' (ix_Tokens cfg)] else [])
      in new_server (ix_Http cfg) (server_middleware ''Indexer API'' (ix_RateLimit cfg)) (RegisterIdxHandlers auth))"

section \<open>Properties\<close>

text \<open>
  Nil statuses: the listener panics exactly when one is broadcast, and one is broadcast when a node wins a
  round before its first status was recorded.
\<close>

lemma broadcastListener_eq:
  "broadcastListener ms = (if None \<in> set ms then Panic NilDeref else Ret (map (\<lambda>m. ns_LastRound (the m)) ms))"
  by (induction ms rule: broadcastListener.induct) auto

theorem nil_broadcast_panics:
  assumes "nd_lastStatus (cl_nodes gs ! i) = None" "cl_latestRound gs < lr"
  shows "broadcastListener (cl_broadcasts (snd (SetLatestRound now lr i gs))) = Panic NilDeref"
  using assms by (simp add: broadcastListener_eq SetLatestRound_def)

definition demo_get :: "string \<Rightarrow> request" where
  "demo_get r = \<lparr>rq_Method = ''GET'', rq_RequestURI = ''/v2/blocks/'' @ r, rq_Path = ''/v2/blocks/'' @ r, rq_Body = [],
     rq_Header = (\<lambda>h. if h = ''Authorization'' then ''bearer s3cret'' else ''''),
     rq_Param = (\<lambda>p. if p = ''round'' then r else ''''), rq_Format = Inr None, rq_RealIP = ''10.0.0.1'', rq_Scheme = ''http''\<rparr>"


lemma parse_round_decimal: "n < 2 ^ 63 \<Longrightarrow> rq_Param rq ''round'' = format_nat n \<Longrightarrow> parse_round rq = Some (of_nat n)"
  using format_nat_ok[of n] by (simp add: parse_round_def ParseInt_format_nat)

text \<open>
  C38. The \<open>round\<close> parameter of both handlers: an accepted one is an optional sign and decimal
  digits, and the round asked for is their value, below \<open>2 ^ 63\<close>; every such number in its usual form is
  accepted; anything else is answered with status 400.
\<close>

theorem round_parameter:
  "(parse_round rq = Some rnd \<longrightarrow>
      (\<exists>sgn ds. rq_Param rq ''round'' = sgn @ ds \<and> sgn \<in> {[], ''+'', ''-''} \<and> ds \<noteq> [] \<and> list_all is_digit ds \<and>
         decimal ds < 2 ^ 63 \<and> unat rnd = decimal ds)) \<and>
   (n < 2 ^ 63 \<and> rq_Param rq ''round'' = format_nat n \<longrightarrow> parse_round rq = Some (of_nat n)) \<and>
   (parse_round rq = None \<longrightarrow> blocksHandler g f rq = jsonError 400 ''Invalid round value'' \<and>
      waitHandler w rq = jsonError 400 ''Invalid round value'')"
proof (intro conjI impI)
  let ?s = "rq_Param rq ''round''"
  show "\<exists>sgn ds. ?s = sgn @ ds \<and> sgn \<in> {[], ''+'', ''-''} \<and> ds \<noteq> [] \<and> list_all is_digit ds \<and>
      decimal ds < 2 ^ 63 \<and> unat rnd = decimal ds" if p: "parse_round rq = Some rnd"
  proof -
    obtain v where v: "ParseInt ?s = Some v" "0 \<le> v" "rnd = word_of_int v"
      using p by (auto simp: parse_round_def Let_def split: option.splits if_splits)
    from ParseInt_SomeD[OF v(1)] obtain sgn ds where d: "v < 2 ^ 63" "?s = sgn @ ds" "sgn \<in> {[], ''+'', ''-''}" "ds \<noteq> []"
      "list_all is_digit ds" "v = (if sgn = ''-'' then - int (decimal ds) else int (decimal ds))" by blast
    have "v = int (decimal ds)" using d(6) v(2) by (simp split: if_splits)
    moreover from this have "int (decimal ds) < int (2 ^ 63)" using d(1) by simp
    then have "decimal ds < 2 ^ 63" by (simp only: of_nat_less_iff)
    moreover from calculation have "unat rnd = decimal ds" unfolding v(3) by (simp add: unat_of_nat)
    ultimately show ?thesis using d(2-5) by blast
  qed
  assume "n < 2 ^ 63 \<and> ?s = format_nat n"
  then show "parse_round rq = Some (of_nat n)" by (simp add: parse_round_decimal)
qed (simp_all add: blocksHandler_def waitHandler_def)

theorem round_parameter_witness: "parse_round (demo_get ''17'') = Some 17"
proof -
  have "rq_Param (demo_get ''17'') ''round'' = format_nat 17" by (simp add: demo_get_def) code_simp
  with round_parameter[of "demo_get ''17''" 0 17 undefined undefined undefined] show ?thesis
    by simp
qed

text \<open>
  \<open>WaitForStatusAfter\<close> returns either at once with the last status of the node that
  announced the latest round, which is then ahead, or the first status received whose round is beyond the one given;
  it returns nothing only when the context ends before such a status.
\<close>

theorem WaitForStatusAfter_result:
  assumes "None \<notin> set msgs"
  shows "WaitForStatusAfter rnd gs msgs =
    Ret (case cl_lastSrc gs of
           None \<Rightarrow> find (\<lambda>st. ns_LastRound st > rnd) (map the msgs)
         | Some i \<Rightarrow>
             if nd_lastStatus (cl_nodes gs ! i) \<noteq> None \<and> cl_latestRound gs > rnd
             then nd_lastStatus (cl_nodes gs ! i) else find (\<lambda>st. ns_LastRound st > rnd) (map the msgs))"
proof -
  have "None \<notin> set ms \<Longrightarrow> wait_loop rnd ms = Ret (find (\<lambda>st. ns_LastRound st > rnd) (map the ms))" for ms
    by (induction ms rule: wait_loop.induct[of _ rnd]) auto
  with assms show ?thesis by (auto simp: WaitForStatusAfter_def Let_def split: option.splits)
qed

theorem WaitForStatusAfter_result_witness:
  "WaitForStatusAfter 5 demo_proxied [Some \<lparr>ns_LastRound = 5, ns_CatchupTime = 0, ns_StoppedAtUnsupportedRound = False, ns_rest = ''''\<rparr>,
      Some \<lparr>ns_LastRound = 6, ns_CatchupTime = 0, ns_StoppedAtUnsupportedRound = False, ns_rest = ''''\<rparr>] =
     Ret (Some \<lparr>ns_LastRound = 6, ns_CatchupTime = 0, ns_StoppedAtUnsupportedRound = False, ns_rest = ''''\<rparr>)"
  by (subst WaitForStatusAfter_result) (simp_all add: demo_proxied_def NewCluster_rest)

text \<open>
  With tokens configured every route of both servers asks for one, except \<open>/health\<close> of the algod server; without tokens none does.
  A server whose HTTP section is missing is a nil dereference.
\<close>

theorem server_authentication:
  assumes "NewAlgodProxy acfg = Ret asrv" "NewIndexerProxy icfg = Ret isrv"
  shows "(\<forall>r \<in> set (sv_routes asrv). rt_middleware r =
      (if al_Tokens acfg = [] \<or> rt_pattern r = ''/health'' then [] else [MakeAuth ''X-Algo-API-Token'' (al_Tokens acfg)])) \<and>
    (\<forall>r \<in> set (sv_routes isrv). rt_middleware r =
      (if ix_Tokens icfg = [] then [] else [MakeAuth ''X-Indexer-API-Token'' (ix_Tokens icfg)])) \<and>
    al_Http acfg \<noteq> None \<and> ix_Http icfg \<noteq> None"
  using assms
  by (auto simp: NewAlgodProxy_def NewIndexerProxy_def new_server_def RegisterAlgodHandlers_def RegisterIdxHandlers_def
      mk_route_def Let_def split: option.splits)

theorem server_authentication_witness:
  "\<exists>asrv. NewAlgodProxy ((the (cfg_Algod defaultConfig))\<lparr>al_Tokens := [''t'']\<rparr>) = Ret asrv \<and>
     (\<forall>r \<in> set (sv_routes asrv). rt_pattern r \<noteq> ''/health'' \<longrightarrow> rt_middleware r = [MakeAuth ''X-Algo-API-Token'' [''t'']])"
proof -
  let ?a = "(the (cfg_Algod defaultConfig))\<lparr>al_Tokens := [''t'']\<rparr>" and ?i = "the (cfg_Indexer defaultConfig)"
  obtain asrv isrv where r: "NewAlgodProxy ?a = Ret asrv" "NewIndexerProxy ?i = Ret isrv"
    by (simp add: NewAlgodProxy_def NewIndexerProxy_def new_server_def defaultConfig_def)
  from server_authentication[OF r] r(1) show ?thesis by simp
qed

end
