(* ===== verification/Cluster_Steps.thy ===== *)
theory Cluster_Steps
  imports Prefetch
begin

text \<open>
  The cluster as a state machine: one step per update that some goroutine makes atomically
  (under a lock, or on data of its own). The invariant \<open>cl_ok\<close> and the order \<open>cl_le\<close>,
  which says how the cluster may evolve, hold along all sequences of steps, in any
  interleaving.
\<close>

section \<open>Steps\<close>

inductive cache_step :: "'l lru \<Rightarrow> 'l UnifiedBlockCache \<Rightarrow> 'l UnifiedBlockCache \<Rightarrow> bool" for lru where
  cache_add: "AddBlock lru u b = Ret u' \<Longrightarrow> cache_step lru u u'"
| cache_promise: "PromiseBlock lru u r = Ret (a, u') \<Longrightarrow> cache_step lru u u'"
| cache_lookup: "pc \<in> gb_lookups \<Longrightarrow> gb_lookup lru r pc u = Ret (pc', u') \<Longrightarrow> cache_step lru u u'"
| cache_timeout: "pc \<in> gb_lookups \<Longrightarrow> gb_timeout lru r pc e u = Ret (pc', u') \<Longrightarrow> cache_step lru u u'"

inductive cstep :: "'l lru \<Rightarrow> 'l NodeCluster \<Rightarrow> 'l NodeCluster \<Rightarrow> bool" for lru where
  cs_state: "i < length (cl_nodes gs) \<Longrightarrow> change_state t i st gs = (True, gs') \<Longrightarrow> cstep lru gs gs'"
| cs_notify: "cl_cState gs < 100 \<Longrightarrow> cstep lru gs (StateUpdate gs)"
| cs_receive: "cl_cState gs = Suc n \<Longrightarrow> cstep lru gs (gs\<lparr>cl_cState := n\<rparr>)"
| cs_lists: "cstep lru gs (updateNodeLists gs)"
| cs_status: "i < length (cl_nodes gs) \<Longrightarrow> cstep lru gs (record_status i ns gs)"
| cs_rtt: "i < length (cl_nodes gs) \<Longrightarrow> 0 \<le> us \<Longrightarrow> cstep lru gs (updateRTT i us gs)"
| cs_reset: "i < length (cl_nodes gs) \<Longrightarrow> cstep lru gs (upd_node i (\<lambda>n. n\<lparr>nd_latestRound := 0\<rparr>) gs)"
| cs_latest: "i < length (cl_nodes gs) \<Longrightarrow> SetLatestRound t lr i gs = (won, gs') \<Longrightarrow> cstep lru gs gs'"
| cs_genesis: "EnsureGenesis g gs = (err, gs') \<Longrightarrow> cstep lru gs gs'"
| cs_adopt: "i < length (cl_nodes gs) \<Longrightarrow> g = cl_genesis gs \<Longrightarrow>
    cstep lru gs (upd_node i (\<lambda>n. n\<lparr>nd_genesis := g\<rparr>) gs)"
| cs_archival: "i < length (cl_nodes gs) \<Longrightarrow> cstep lru gs (upd_node i (\<lambda>n. n\<lparr>nd_Catchup := False\<rparr>) gs)"
| cs_fatal: "cstep lru gs (gs\<lparr>cl_fatalErr := cl_fatalErr gs @ [e]\<rparr>)"
| cs_cache: "cl_ucache gs = Some u \<Longrightarrow> cache_step lru u u' \<Longrightarrow> cstep lru gs (gs\<lparr>cl_ucache := Some u'\<rparr>)"
| cs_prefetch: "cstep lru gs (prefetchNotify r gs)"
| cs_request: "cl_bpSink gs = r # rs \<Longrightarrow> cstep lru gs (gs\<lparr>cl_bpSink := rs\<rparr>)"
| cs_bps: "cstep lru gs (gs\<lparr>cl_bps := bps\<rparr>)"

abbreviation csteps :: "'l lru \<Rightarrow> 'l NodeCluster \<Rightarrow> 'l NodeCluster \<Rightarrow> bool" where
  "csteps lru \<equiv> (cstep lru)\<^sup>*\<^sup>*"

text \<open>One turn of the loop of \<open>stateChangeMonitor\<close>: a notification is taken, then the lists are made anew.\<close>

definition stateChangeMonitor_step :: "'l NodeCluster \<Rightarrow> 'l NodeCluster" where
  "stateChangeMonitor_step gs =
     (case cl_cState gs of 0 \<Rightarrow> gs | Suc n \<Rightarrow> updateNodeLists (gs\<lparr>cl_cState := n\<rparr>))"

lemma stateChangeMonitor_steps: "csteps lru gs (stateChangeMonitor_step gs)"
proof (cases "cl_cState gs")
  case (Suc n)
  have "cstep lru gs (gs\<lparr>cl_cState := n\<rparr>)" using Suc by (rule cs_receive)
  then have "csteps lru gs (updateNodeLists (gs\<lparr>cl_cState := n\<rparr>))"
    by (rule converse_rtranclp_into_rtranclp) (simp add: r_into_rtranclp cs_lists)
  then show ?thesis using Suc by (simp add: stateChangeMonitor_step_def)
qed (simp add: stateChangeMonitor_step_def)

section \<open>Invariant and order\<close>

fun src_ok :: "nat option \<Rightarrow> u64 \<Rightarrow> nat \<Rightarrow> bool" where
  "src_ok None lr n \<longleftrightarrow> lr = 0"
| "src_ok (Some i) lr n \<longleftrightarrow> i < n"

fun ucache_ok :: "'l lru \<Rightarrow> ('l \<Rightarrow> bool) \<Rightarrow> 'l UnifiedBlockCache option \<Rightarrow> bool" where
  "ucache_ok lru linv None \<longleftrightarrow> True"
| "ucache_ok lru linv (Some u) \<longleftrightarrow> uc_ok lru linv u"

text \<open>
  The lists name existing nodes once, the archival list only archival ones; a node that
  has a genesis has that of the cluster; channels are within their capacity; averages are not negative; the cache
  is well formed.
\<close>

definition cl_ok :: "'l lru \<Rightarrow> ('l \<Rightarrow> bool) \<Rightarrow> 'l NodeCluster \<Rightarrow> bool" where
  "cl_ok lru linv gs \<longleftrightarrow>
     distinct (cl_catchupNodes gs @ cl_archNodes gs) \<and>
     set (cl_catchupNodes gs @ cl_archNodes gs) \<subseteq> {..<length (cl_nodes gs)} \<and>
     (\<forall>i \<in> set (cl_archNodes gs). \<not> nd_Catchup (cl_nodes gs ! i)) \<and>
     (\<forall>i < length (cl_nodes gs).
        nd_genesis (cl_nodes gs ! i) \<in> {'''', cl_genesis gs} \<and> 0 \<le> nd_rttEwma (cl_nodes gs ! i)) \<and>
     src_ok (cl_lastSrc gs) (cl_latestRound gs) (length (cl_nodes gs)) \<and>
     cl_cState gs \<le> 100 \<and> length (cl_bpSink gs) \<le> 100 \<and>
     ucache_ok lru linv (cl_ucache gs)"

text \<open>
  The latest round never decreases, a genesis once known stays, the nodes and their
  configuration are fixed, an archival node stays archival, nothing sent is taken back, and
  the cache only evolves as its store may.
\<close>

fun ucache_le :: "'l UnifiedBlockCache option \<Rightarrow> 'l UnifiedBlockCache option \<Rightarrow> bool" where
  "ucache_le None v \<longleftrightarrow> v = None"
| "ucache_le (Some u) None \<longleftrightarrow> False"
| "ucache_le (Some u) (Some u') \<longleftrightarrow> store_le (uc_store u) (uc_store u')"

lemma ucache_le_refl [simp]: "ucache_le u u"
  by (cases u) simp_all

lemma ucache_le_trans: "ucache_le a b \<Longrightarrow> ucache_le b c \<Longrightarrow> ucache_le a c"
  by (cases a; cases b; cases c) (auto intro: store_le_trans)

definition cl_le :: "'l NodeCluster \<Rightarrow> 'l NodeCluster \<Rightarrow> bool" where
  "cl_le gs gs' \<longleftrightarrow>
     cl_latestRound gs \<le> cl_latestRound gs' \<and>
     (cl_genesis gs \<noteq> '''' \<longrightarrow> cl_genesis gs' = cl_genesis gs) \<and>
     length (cl_nodes gs') = length (cl_nodes gs) \<and>
     (\<forall>i < length (cl_nodes gs). nd_cfg (cl_nodes gs' ! i) = nd_cfg (cl_nodes gs ! i) \<and>
        (\<not> nd_Catchup (cl_nodes gs ! i) \<longrightarrow> \<not> nd_Catchup (cl_nodes gs' ! i))) \<and>
     (\<exists>es. cl_fatalErr gs' = cl_fatalErr gs @ es) \<and>
     (\<exists>bs. cl_broadcasts gs' = cl_broadcasts gs @ bs) \<and>
     ucache_le (cl_ucache gs) (cl_ucache gs')"

lemma cl_le_refl [simp]: "cl_le gs gs"
  by (simp add: cl_le_def)

lemma cl_le_trans:
  assumes "cl_le a b" "cl_le b c"
  shows "cl_le a c"
proof -
  have "ucache_le (cl_ucache a) (cl_ucache c)"
    using assms ucache_le_trans by (auto simp: cl_le_def)
  moreover have "\<exists>es. cl_fatalErr c = cl_fatalErr a @ es" "\<exists>bs. cl_broadcasts c = cl_broadcasts a @ bs"
    using assms by (auto simp: cl_le_def)
  moreover have "cl_genesis a \<noteq> '''' \<longrightarrow> cl_genesis c = cl_genesis a" using assms by (auto simp: cl_le_def)
  ultimately show ?thesis using assms unfolding cl_le_def by (simp add: order_trans[of "cl_latestRound a" "cl_latestRound b"])
qed

text \<open>Updates of one node and of fields outside the order.\<close>

lemma cl_le_upd_node:
  assumes "\<And>n. nd_cfg (f n) = nd_cfg n" "\<And>n. nd_Catchup (f n) \<longrightarrow> nd_Catchup n"
  shows "cl_le gs (upd_node i f gs)"
  using assms by (auto simp: cl_le_def upd_node_nth split: option.splits)

lemma cl_ok_upd_node:
  assumes "cl_ok lru linv gs"
    and "\<And>n. nd_genesis n \<in> {'''', cl_genesis gs} \<Longrightarrow> nd_genesis (f n) \<in> {'''', cl_genesis gs}"
    and "\<And>n. 0 \<le> nd_rttEwma n \<Longrightarrow> 0 \<le> nd_rttEwma (f n)"
    and "\<And>n. nd_Catchup (f n) \<longrightarrow> nd_Catchup n"
  shows "cl_ok lru linv (upd_node i f gs)"
proof -
  have "\<not> nd_Catchup (cl_nodes (upd_node i f gs) ! j)" if "j \<in> set (cl_archNodes gs)" for j
  proof -
    have "j < length (cl_nodes gs)" "\<not> nd_Catchup (cl_nodes gs ! j)" using that assms(1) by (auto simp: cl_ok_def)
    then show ?thesis using assms(4) by (auto simp: upd_node_nth)
  qed
  moreover have "nd_genesis (cl_nodes (upd_node i f gs) ! j) \<in> {'''', cl_genesis gs} \<and>
      0 \<le> nd_rttEwma (cl_nodes (upd_node i f gs) ! j)" if "j < length (cl_nodes gs)" for j
    using that assms(1-3) by (simp add: upd_node_nth cl_ok_def)
  ultimately show ?thesis using assms(1) by (simp add: cl_ok_def)
qed

lemma sorted_ids_ok:
  "distinct (sort_key f (synced_ids True gs) @ sort_key f (synced_ids False gs))"
  "set (sort_key f (synced_ids True gs) @ sort_key f (synced_ids False gs)) \<subseteq> {..<length (cl_nodes gs)}"
  "i \<in> set (sort_key f (synced_ids False gs)) \<Longrightarrow> \<not> nd_Catchup (cl_nodes gs ! i)"
  by (auto simp: synced_ids_def)

context lru_ops
begin

lemma cache_step_ok:
  assumes "cache_step lru u u'" "uc_ok lru linv u"
  shows "uc_ok lru linv u' \<and> store_le (uc_store u) (uc_store u')"
  using assms(1)
proof cases
  case (cache_add b)
  then show ?thesis using AddBlock_ok[OF assms(2), of b] by auto
next
  case (cache_promise r a)
  then show ?thesis using PromiseBlock_ok[OF assms(2), of r] by auto
next
  case (cache_lookup pc r pc')
  then show ?thesis using gb_lookup_ok[OF assms(2) cache_lookup(1), of r] by auto
next
  case (cache_timeout pc r e pc')
  then show ?thesis using gb_timeout_ok[OF assms(2) cache_timeout(1), of r e] by auto
qed

lemma cstep_ok:
  assumes "cstep lru gs gs'" "cl_ok lru linv gs"
  shows "cl_ok lru linv gs'"
  using assms(1)
proof cases
  case (cs_state i t st)
  then have "gs' = upd_node i (\<lambda>n. n\<lparr>nd_state := st, nd_state_at := t\<rparr>) gs"
    by (auto simp: change_state_def split: if_splits)
  with assms(2) show ?thesis by (auto intro!: cl_ok_upd_node)
next
  case (cs_lists)
  then show ?thesis
    using assms(2) sorted_ids_ok(1,2)[of "\<lambda>i. nd_rttEwma (cl_nodes gs ! i)" gs]
      sorted_ids_ok(3)[of _ "\<lambda>i. nd_rttEwma (cl_nodes gs ! i)" gs]
    by (auto simp: updateNodeLists_eq cl_ok_def)
next
  case (cs_status i ns)
  with assms(2) show ?thesis by (auto simp: record_status_def intro!: cl_ok_upd_node)
next
  case (cs_rtt i us)
  with assms(2) show ?thesis by (auto simp: updateRTT_def updateRTT_nonneg intro!: cl_ok_upd_node)
next
  case (cs_latest i t lr won)
  with assms(2) show ?thesis by (auto simp: SetLatestRound_def cl_ok_def split: if_splits)
next
  case (cs_genesis g err)
  with assms(2) show ?thesis by (auto simp: EnsureGenesis_def cl_ok_def split: if_splits)
next
  case (cs_cache u u')
  with assms(2) show ?thesis using cache_step_ok[of u u'] by (auto simp: cl_ok_def)
next
  case (cs_request r rs)
  with assms(2) show ?thesis by (simp add: cl_ok_def)
next
  case (cs_reset i)
  with assms(2) show ?thesis by (auto intro!: cl_ok_upd_node)
next
  case (cs_adopt i g)
  with assms(2) show ?thesis by (auto intro!: cl_ok_upd_node)
next
  case (cs_archival i)
  with assms(2) show ?thesis by (auto intro!: cl_ok_upd_node)
qed (use assms(2) in \<open>auto simp: cl_ok_def StateUpdate_def prefetchNotify_def bpSink_cap_def\<close>)

lemma cstep_le:
  assumes "cstep lru gs gs'" "cl_ok lru linv gs"
  shows "cl_le gs gs'"
  using assms(1)
proof cases
  case (cs_state i t st)
  then have "gs' = upd_node i (\<lambda>n. n\<lparr>nd_state := st, nd_state_at := t\<rparr>) gs"
    by (auto simp: change_state_def split: if_splits)
  then show ?thesis by (auto intro: cl_le_upd_node)
next
  case (cs_latest i t lr won)
  then show ?thesis by (auto simp: SetLatestRound_def cl_le_def split: if_splits option.splits)
next
  case (cs_genesis g err)
  then show ?thesis by (auto simp: EnsureGenesis_def cl_le_def split: if_splits option.splits)
next
  case (cs_cache u u')
  moreover have "uc_ok lru linv u" using assms(2) cs_cache by (simp add: cl_ok_def)
  ultimately show ?thesis using cache_step_ok[of u u'] by (simp add: cl_le_def)
next
  case (cs_status i ns)
  then show ?thesis by (auto simp: record_status_def intro!: cl_le_upd_node)
next
  case (cs_rtt i us)
  then show ?thesis by (auto simp: updateRTT_def intro!: cl_le_upd_node)
next
  case (cs_reset i)
  then show ?thesis by (auto intro!: cl_le_upd_node)
next
  case (cs_adopt i g)
  then show ?thesis by (auto intro!: cl_le_upd_node)
next
  case (cs_archival i)
  then show ?thesis by (auto intro!: cl_le_upd_node)
qed (auto simp: cl_le_def StateUpdate_def updateNodeLists_eq prefetchNotify_def)

lemma csteps_ok: "csteps lru gs gs' \<Longrightarrow> cl_ok lru linv gs \<Longrightarrow> cl_ok lru linv gs' \<and> cl_le gs gs'"
proof (induction rule: rtranclp_induct)
  case (step y z)
  then show ?case using cstep_ok[of y z] cstep_le[of y z] cl_le_trans by blast
qed simp

end

lemma csteps_length: "csteps lru gs gs' \<Longrightarrow> length (cl_nodes gs') = length (cl_nodes gs)"
proof (induction rule: rtranclp_induct)
  case (step y z)
  from step(2) have "length (cl_nodes z) = length (cl_nodes y)"
    by cases (auto simp: change_state_def SetLatestRound_def EnsureGenesis_def StateUpdate_def updateNodeLists_eq
        record_status_def updateRTT_def prefetchNotify_def split: if_splits)
  with step show ?case by simp
qed simp

lemma NewCluster_ok:
  assumes "ucache_ok lru linv u"
  shows "cl_ok lru linv (NewCluster now u cfg)"
  using assms by (simp add: NewCluster_rest cl_ok_def new_node_def)

end
