(* ===== verification/Backoff.thy ===== *)
theory Backoff
  imports AVN_Prelude
begin

text \<open>
  \<open>Backoff\<close> of \<open>internal/utils/utils.go\<close>: call a function until it succeeds, fails fatally,
  the context is done or the attempts are used up, with a wait between attempts that doubles
  up to a maximum. The function, the context and the passing of time act on a state
  \<open>'s\<close> that the caller chooses: \<open>ctx_err s\<close> is \<open>ctx.Err()\<close>, \<open>fn timeout s\<close>
  calls the function under a context with that timeout, and \<open>pause d s\<close> is the
  \<open>select\<close> on \<open>ctx.Done()\<close> and \<open>time.After(d)\<close>.

  The loop has no bound of its own, so it is a partial function. The counter
  \<open>tries\<close> is an \<open>int64\<close> that wraps, and the lemmas show that the loop always returns:
  after \<open>tries\<close> attempts when \<open>tries\<close> is positive, and after the wrap-around
  otherwise (\<open>tries = 0\<close> stands for \<open>2 ^ 64\<close> attempts). The locale states what a
  caller gets from an invariant of its function.
\<close>

section \<open>Definitions\<close>

text \<open>Reduction of an integer to the range of an \<open>int64\<close>.\<close>

definition i64_wrap :: "int \<Rightarrow> int" where
  "i64_wrap x = (x + 2 ^ 63) mod 2 ^ 64 - 2 ^ 63"

definition backoff_limit :: goerror where
  "backoff_limit = new_error ''Backoff limit reached''"

text \<open>The update of \<open>wait\<close> after a wait.\<close>

definition next_wait :: "duration \<Rightarrow> duration \<Rightarrow> duration" where
  "next_wait maxwait wait =
     (if wait > 0 \<and> maxwait > 0
      then let w = i64_wrap (2 * wait) in if w > maxwait then maxwait else w
      else wait)"

partial_function (option) Backoff ::
  "('s \<Rightarrow> goerror option) \<Rightarrow> (duration \<Rightarrow> 's \<Rightarrow> (bool \<times> goerror option) \<times> 's) \<Rightarrow> (duration \<Rightarrow> 's \<Rightarrow> 's)
    \<Rightarrow> duration \<Rightarrow> duration \<Rightarrow> duration \<Rightarrow> int \<Rightarrow> 's \<Rightarrow> (goerror option \<times> 's) option" where
  "Backoff ctx_err fn pause timeout wait maxwait tries s =
     (case ctx_err s of
        Some e \<Rightarrow> Some (Some e, s)
      | None \<Rightarrow>
          (case fn timeout s of ((fatal, err), s1) \<Rightarrow>
            (case err of
               None \<Rightarrow> Some (None, s1)
             | Some e \<Rightarrow>
                 if fatal then Some (Some e, s1)
                 else let tries' = i64_wrap (tries - 1) in
                      if tries' = 0 then Some (Some backoff_limit, s1)
                      else Backoff ctx_err fn pause timeout (next_wait maxwait wait) maxwait tries'
                             (if wait > 0 then pause wait s1 else s1))))"

text \<open>The reference: at most \<open>n\<close> attempts, by recursion on \<open>n\<close>.\<close>

fun backoff_n ::
  "('s \<Rightarrow> goerror option) \<Rightarrow> (duration \<Rightarrow> 's \<Rightarrow> (bool \<times> goerror option) \<times> 's) \<Rightarrow> (duration \<Rightarrow> 's \<Rightarrow> 's)
    \<Rightarrow> duration \<Rightarrow> duration \<Rightarrow> nat \<Rightarrow> duration \<Rightarrow> 's \<Rightarrow> goerror option \<times> 's" where
  "backoff_n ctx_err fn pause timeout maxwait 0 wait s = (Some backoff_limit, s)"
| "backoff_n ctx_err fn pause timeout maxwait (Suc n) wait s =
     (case ctx_err s of
        Some e \<Rightarrow> (Some e, s)
      | None \<Rightarrow>
          (case fn timeout s of ((fatal, err), s1) \<Rightarrow>
            (case err of
               None \<Rightarrow> (None, s1)
             | Some e \<Rightarrow>
                 if fatal then (Some e, s1)
                 else if n = 0 then (Some backoff_limit, s1)
                 else backoff_n ctx_err fn pause timeout maxwait n (next_wait maxwait wait)
                        (if wait > 0 then pause wait s1 else s1))))"

definition attempts :: "int \<Rightarrow> nat" where
  "attempts tries = nat (if tries \<le> 0 then tries + 2 ^ 64 else tries)"

section \<open>The loop returns\<close>

lemma i64_wrap_id: "- (2 ^ 63) \<le> x \<Longrightarrow> x < 2 ^ 63 \<Longrightarrow> i64_wrap x = x"
  by (simp add: i64_wrap_def)

lemma i64_wrap_range: "- (2 ^ 63) \<le> i64_wrap x \<and> i64_wrap x < 2 ^ 63"
  using pos_mod_bound[of "2 ^ 64" "x + 2 ^ 63"] pos_mod_sign[of "2 ^ 64" "x + 2 ^ 63"]
  by (simp add: i64_wrap_def)

lemma attempts_pred:
  assumes "- (2 ^ 63) \<le> tries" "tries < 2 ^ 63"
  shows "attempts tries = (if i64_wrap (tries - 1) = 0 then 1 else Suc (attempts (i64_wrap (tries - 1))))"
proof (cases "tries = - (2 ^ 63)")
  case True
  then have "i64_wrap (tries - 1) = 2 ^ 63 - 1" by (simp add: i64_wrap_def)
  with True show ?thesis by (simp add: attempts_def)
next
  case False
  then have "i64_wrap (tries - 1) = tries - 1" using assms by (intro i64_wrap_id) auto
  with assms show ?thesis by (auto simp: attempts_def)
qed

lemma Backoff_backoff_n:
  assumes "- (2 ^ 63) \<le> tries" "tries < 2 ^ 63"
  shows "Backoff ctx_err fn pause timeout wait maxwait tries s =
    Some (backoff_n ctx_err fn pause timeout maxwait (attempts tries) wait s)"
proof -
  have "attempts tries = Suc n \<Longrightarrow> - (2 ^ 63) \<le> tries \<Longrightarrow> tries < 2 ^ 63 \<Longrightarrow>
    Backoff ctx_err fn pause timeout wait maxwait tries s =
    Some (backoff_n ctx_err fn pause timeout maxwait (Suc n) wait s)" for n
  proof (induction n arbitrary: tries wait s)
    case 0
    have "attempts (i64_wrap (tries - 1)) \<noteq> 0" using i64_wrap_range[of "tries - 1"] by (auto simp: attempts_def)
    with 0 have "i64_wrap (tries - 1) = 0" using attempts_pred[of tries] by (auto split: if_splits)
    then show ?case
      by (subst Backoff.simps) (auto split: option.splits prod.splits)
  next
    case (Suc n)
    let ?t = "i64_wrap (tries - 1)"
    have nz: "?t \<noteq> 0" and at: "attempts ?t = Suc n"
      using Suc.prems attempts_pred[of tries] by (auto split: if_splits)
    have rec: "Backoff ctx_err fn pause timeout w maxwait ?t s'
        = Some (backoff_n ctx_err fn pause timeout maxwait (Suc n) w s')" for w s'
      using at i64_wrap_range by (intro Suc.IH) auto
    show ?case
      using nz by (subst Backoff.simps)
        (auto simp: Let_def rec split: option.splits prod.splits simp del: backoff_n.simps(2)
          simp add: backoff_n.simps(2)[of _ _ _ _ _ "Suc n"])
  qed
  moreover have "attempts tries \<noteq> 0" using assms by (auto simp: attempts_def)
  ultimately show ?thesis using assms by (metis not0_implies_Suc)
qed

section \<open>The waits\<close>

lemma next_wait_eq:
  assumes "0 < wait" "wait \<le> maxwait" "maxwait < 2 ^ 62"
  shows "next_wait maxwait wait = min (2 * wait) maxwait"
  using assms by (simp add: next_wait_def i64_wrap_id min_def Let_def)

lemma waits_double:
  assumes "0 < wait" "wait \<le> maxwait" "maxwait < 2 ^ 62"
  shows "(next_wait maxwait ^^ i) wait = min (2 ^ i * wait) maxwait"
proof (induction i)
  case 0
  then show ?case using assms by simp
next
  case (Suc i)
  have "wait \<le> 2 ^ i * wait" using assms(1) mult_right_mono[of 1 "2 ^ i" wait] by simp
  then have "0 < min (2 ^ i * wait) maxwait" using assms by linarith
  then have "next_wait maxwait (min (2 ^ i * wait) maxwait) = min (2 * min (2 ^ i * wait) maxwait) maxwait"
    using assms by (intro next_wait_eq) auto
  also have "\<dots> = min (2 ^ Suc i * wait) maxwait" using assms by (simp add: min_def)
  finally show ?case by (simp add: Suc)
qed

section \<open>Callers\<close>

text \<open>
  What a caller knows afterwards, from an invariant \<open>I\<close> of its function and of the passing
  of time: the invariant still holds; the error is that of the context, the last error of the
  function (when it was fatal) or the limit; and success means that the function's last
  call, made in a state with the invariant, succeeded and produced the final state.
\<close>

locale retried =
  fixes I :: "'s \<Rightarrow> bool"
    and ctx_err :: "'s \<Rightarrow> goerror option"
    and fn :: "duration \<Rightarrow> 's \<Rightarrow> (bool \<times> goerror option) \<times> 's"
    and pause :: "duration \<Rightarrow> 's \<Rightarrow> 's"
  assumes fn_inv: "I s \<Longrightarrow> I (snd (fn d s))"
    and pause_inv: "I s \<Longrightarrow> I (pause d s)"
begin

lemma backoff_n_inv: "I s \<Longrightarrow> I (snd (backoff_n ctx_err fn pause timeout maxwait n wait s))"
proof (induction n arbitrary: wait s)
  case (Suc n)
  obtain fatal err s1 where fn: "fn timeout s = ((fatal, err), s1)" by (metis surj_pair)
  have "I s1" using fn fn_inv[OF Suc.prems, of timeout] by simp
  then have "I (if wait > 0 then pause wait s1 else s1)" by (simp add: pause_inv)
  then show ?case
    using fn Suc.prems \<open>I s1\<close> Suc.IH by (auto split: option.splits)
qed simp

lemma backoff_n_success:
  "I s \<Longrightarrow> backoff_n ctx_err fn pause timeout maxwait n wait s = (None, s') \<Longrightarrow>
     \<exists>s0 fatal. I s0 \<and> ctx_err s0 = None \<and> fn timeout s0 = ((fatal, None), s')"
proof (induction n arbitrary: wait s)
  case (Suc n)
  obtain fatal err s1 where fn: "fn timeout s = ((fatal, err), s1)" by (metis surj_pair)
  have "I s1" using fn fn_inv[OF Suc.prems(1), of timeout] by simp
  then have i2: "I (if wait > 0 then pause wait s1 else s1)" by (simp add: pause_inv)
  show ?case
  proof (cases err)
    case None
    with fn Suc.prems show ?thesis by (auto split: option.splits)
  next
    case (Some e)
    with fn Suc.prems have "backoff_n ctx_err fn pause timeout maxwait n (next_wait maxwait wait)
        (if wait > 0 then pause wait s1 else s1) = (None, s')"
      by (auto split: option.splits if_splits)
    then show ?thesis by (rule Suc.IH[OF i2])
  qed
qed simp

lemma backoff_n_error:
  "backoff_n ctx_err fn pause timeout maxwait n wait s = (Some e, s') \<Longrightarrow>
     e = backoff_limit \<or> (\<exists>s0. ctx_err s0 = Some e) \<or> (\<exists>s0. fst (fn timeout s0) = (True, Some e))"
proof (induction n arbitrary: wait s)
  case (Suc n)
  show ?case
    using Suc.prems
    by (auto split: option.splits prod.splits if_splits dest!: Suc.IH) (metis fst_conv)+
qed simp

end

section \<open>Properties\<close>

text \<open>
  C31. \<open>Backoff\<close> returns whatever its function does: it is the reference with a fixed number of attempts, \<open>tries\<close>
  of them when that is positive and \<open>2 ^ 64 + tries\<close> otherwise, because the counter wraps around. The
  wait before attempt \<open>i + 2\<close> is \<open>2 ^ i\<close> times the first, capped by the maximum.
\<close>

theorem Backoff_returns:
  assumes "- (2 ^ 63) \<le> tries" "tries < 2 ^ 63"
  shows "Backoff ctx_err fn pause timeout wait maxwait tries s =
      Some (backoff_n ctx_err fn pause timeout maxwait (attempts tries) wait s) \<and>
    (0 < wait \<and> wait \<le> maxwait \<and> maxwait < 2 ^ 62 \<longrightarrow>
      (next_wait maxwait ^^ i) wait = min (2 ^ i * wait) maxwait)"
proof (intro conjI impI)
  show "Backoff ctx_err fn pause timeout wait maxwait tries s =
      Some (backoff_n ctx_err fn pause timeout maxwait (attempts tries) wait s)"
    by (rule Backoff_backoff_n[OF assms])
  assume "0 < wait \<and> wait \<le> maxwait \<and> maxwait < 2 ^ 62"
  then show "(next_wait maxwait ^^ i) wait = min (2 ^ i * wait) maxwait" by (intro waits_double) simp_all
qed

text \<open>A function that fails twice; the state is the list of waits.\<close>

theorem Backoff_returns_witness:
  "Backoff (\<lambda>s. None) (\<lambda>d s. ((False, if length s < 2 then Some (new_error ''busy'') else None), s)) (\<lambda>d s. s @ [d])
     0 100 150 3 [] = Some (None, [100, 150]) \<and> (next_wait 150 ^^ 1) 100 = 150"
proof -
  have a: "attempts 3 = Suc (Suc (Suc 0))" by (simp add: attempts_def)
  have w: "next_wait 150 100 = 150" by (simp add: next_wait_def i64_wrap_def)
  show ?thesis
    using Backoff_returns[of 3 "\<lambda>s. None" "\<lambda>d s. ((False, if length s < 2 then Some (new_error ''busy'') else None), s)"
        "\<lambda>d s. s @ [d]" 0 100 150 "[]" 1]
    by (simp add: a w)
qed
end
