(* ===== verification/Node.thy ===== *)
theory Node
  imports Cluster_Steps Backoff
begin

text \<open>
  The operations of \<open>internal/algod/node.go\<close> and \<open>LoadBlockSync\<close> of \<open>cluster.go\<close> that
  call an upstream node. The network, the clock, the context and the waiting of a
  goroutine are the fields of \<open>env\<close>. A call that may block takes the whole state
  and returns a new one: what it changes of the cluster is the work of the other
  goroutines in the meantime. The passing of time, in the waits of \<open>Backoff\<close> and in
  \<open>time.Sleep\<close>, is such a call too. The locale \<open>node_env\<close> of theory \<open>Node_Steps\<close> says what is
  relied upon: those changes are steps of the cluster, and the clock does not run backwards.
\<close>

section \<open>The environment\<close>

record ('w, 'l) sys =
  sy_w :: 'w
  sy_cl :: "'l NodeCluster"

record ('w, 'l) env =
  en_lru :: "'l lru"
  en_we :: wrap_env
  en_now :: "'w \<Rightarrow> instant"
  en_ctx_err :: "'w \<Rightarrow> goerror option"
  en_pause :: "duration \<Rightarrow> ('w, 'l) sys \<Rightarrow> ('w, 'l) sys"
  en_Status :: "nat \<Rightarrow> duration \<Rightarrow> ('w, 'l) sys \<Rightarrow> (goerror + models_NodeStatus) \<times> ('w, 'l) sys"
  en_GetGenesis :: "nat \<Rightarrow> duration \<Rightarrow> ('w, 'l) sys \<Rightarrow> (goerror + string) \<times> ('w, 'l) sys"
  en_StatusAfterBlock :: "nat \<Rightarrow> u64 \<Rightarrow> duration \<Rightarrow> ('w, 'l) sys \<Rightarrow> (goerror + models_NodeStatus) \<times> ('w, 'l) sys"
  en_BlockRaw :: "nat \<Rightarrow> u64 \<Rightarrow> ('w, 'l) sys \<Rightarrow> (goerror + byte list) \<times> ('w, 'l) sys"
  en_Decode :: "byte list \<Rightarrow> EncodedBlockCert \<Rightarrow> goerror option \<times> EncodedBlockCert"
  en_room :: "('w, 'l) sys \<Rightarrow> ('w, 'l) sys"
  en_fatal :: "('w, 'l) sys \<Rightarrow> ('w, 'l) sys"

definition with_cl :: "('l NodeCluster \<Rightarrow> 'l NodeCluster) \<Rightarrow> ('w, 'l) sys \<Rightarrow> ('w, 'l) sys" where
  "with_cl f s = s\<lparr>sy_cl := f (sy_cl s)\<rparr>"

abbreviation node_at :: "('w, 'l) sys \<Rightarrow> nat \<Rightarrow> Node" where
  "node_at s i \<equiv> cl_nodes (sy_cl s) ! i"

text \<open>
  The textual form of the response time, \<open>%.1f\<close>: the exact value to one decimal, ties to even. The type
  \<open>NodeStatus\<close> is declared for reports and not used by the program.
\<close>

definition RttEwma_String :: "rat \<Rightarrow> string" where
  "RttEwma_String x =
     (let n = nat (round_even (10 * \<bar>x\<bar>))
      in (if x < 0 then ''-'' else []) @ format_nat (n div 10) @ ''.'' @ [digit_char (n mod 10)])"

definition RttEwma_MarshalJSON :: "rat \<Rightarrow> string" where
  "RttEwma_MarshalJSON x = ''\"'' @ RttEwma_String x @ ''\"''"

record NodeStatus =
  nst_LastRound :: u64
  nst_LagMs :: int
  nst_NodeId :: string
  nst_LastCP :: string

text \<open>\<open>Duration.Microseconds\<close> truncates towards zero.\<close>

definition Microseconds :: "duration \<Rightarrow> int" where
  "Microseconds d = (if d < 0 then - ((- d) div 1000) else d div 1000)"

section \<open>State and status of a node\<close>

definition cState_cap :: nat where
  "cState_cap = 100"

definition setState :: "('w, 'l) env \<Rightarrow> nat \<Rightarrow> ANState \<Rightarrow> ('w, 'l) sys \<Rightarrow> ('w, 'l) sys" where
  "setState env i st s =
     (case change_state (en_now env (sy_w s)) i st (sy_cl s) of (changed, gs) \<Rightarrow>
        if \<not> changed then s
        else let s1 = s\<lparr>sy_cl := gs\<rparr>;
                 s2 = (if cl_cState gs < cState_cap then s1 else en_room env s1)
             in with_cl StateUpdate s2)"

definition updateWithStatus ::
  "('w, 'l) env \<Rightarrow> nat \<Rightarrow> models_NodeStatus \<Rightarrow> ('w, 'l) sys \<Rightarrow> bool \<times> ('w, 'l) sys" where
  "updateWithStatus env i ns s =
     (if ns_StoppedAtUnsupportedRound ns then (False, setState env i AnsFailed s)
      else
        let s1 = (if ns_CatchupTime ns > 0 then setState env i AnsSyncing s else setState env i AnsSynced s)
        in (True, with_cl (record_status i ns) s1))"

text \<open>The common arguments of \<open>Backoff\<close>: ten seconds per call, waits from 100 milliseconds to ten seconds.\<close>

definition node_backoff ::
  "('w, 'l) env \<Rightarrow> (duration \<Rightarrow> ('w, 'l) sys \<times> 'x \<Rightarrow> (bool \<times> goerror option) \<times> (('w, 'l) sys \<times> 'x)) \<Rightarrow> int
    \<Rightarrow> ('w, 'l) sys \<Rightarrow> 'x \<Rightarrow> (goerror option \<times> (('w, 'l) sys \<times> 'x)) option" where
  "node_backoff env fn tries s x =
     Backoff (\<lambda>(s, x). en_ctx_err env (sy_w s)) fn (\<lambda>d (s, x). (en_pause env d s, x))
       (10 * second) (100 * millisecond) (10 * second) tries (s, x)"

definition status_try ::
  "('w, 'l) env \<Rightarrow> nat \<Rightarrow> duration \<Rightarrow> ('w, 'l) sys \<times> models_NodeStatus option
    \<Rightarrow> (bool \<times> goerror option) \<times> (('w, 'l) sys \<times> models_NodeStatus option)" where
  "status_try env i d sx =
     (case sx of (s, x) \<Rightarrow>
        let start = en_now env (sy_w s) in
        case en_Status env i d s of (r, s1) \<Rightarrow>
          (case r of
             Inl e \<Rightarrow> ((False, Some e), (setState env i AnsFailing s1, x))
           | Inr ns \<Rightarrow>
               ((False, None),
                (with_cl (updateRTT i (Microseconds (en_now env (sy_w s1) - start))) s1, Some ns))))"

definition updateStatus :: "('w, 'l) env \<Rightarrow> nat \<Rightarrow> ('w, 'l) sys \<Rightarrow> (bool \<times> ('w, 'l) sys) run" where
  "updateStatus env i s =
     (case node_backoff env (status_try env i) 0 s None of
        None \<Rightarrow> None
      | Some (Some e, (s1, _)) \<Rightarrow> run_ret (False, s1)
      | Some (None, (s1, None)) \<Rightarrow> Some (Panic NilDeref)
      | Some (None, (s1, Some ns)) \<Rightarrow>
          (case updateWithStatus env i ns s1 of (ok, s2) \<Rightarrow>
             if ok
             then run_ret (True, with_cl (\<lambda>gs. snd (SetLatestRound (en_now env (sy_w s2))
                                                      (nd_latestRound (cl_nodes gs ! i)) i gs)) s2)
             else run_ret (False, s2)))"

section \<open>Fetching a block\<close>

definition isFatalAPIError :: "goerror \<Rightarrow> bool" where
  "isFatalAPIError err =
     (if err_kind err = BadRequest then True
      else if err_kind err = InternalError then True
      else if err_kind err = InvalidToken then True
      else if err_kind err = NotFound then True
      else False)"

text \<open>The zero value \<open>new(rpcs.EncodedBlockCert)\<close> that the decoder fills.\<close>

definition zero_header :: BlockHeader where
  "zero_header =
     \<lparr>bh_Round = 0, bh_Branch = replicate 32 0, bh_Seed = replicate 32 0,
      bh_NativeSha512_256Commitment = replicate 32 0, bh_TimeStamp = 0, bh_GenesisID = '''',
      bh_GenesisHash = replicate 32 0, bh_FeeSink = replicate 32 0, bh_RewardsPool = replicate 32 0,
      bh_RewardsLevel = 0, bh_RewardsRate = 0, bh_RewardsResidue = 0, bh_RewardsRecalculationRound = 0,
      bh_CurrentProtocol = '''', bh_NextProtocol = '''', bh_NextProtocolApprovals = 0,
      bh_NextProtocolVoteBefore = 0, bh_NextProtocolSwitchOn = 0, bh_UpgradePropose = '''',
      bh_UpgradeDelay = 0, bh_UpgradeApprove = False, bh_TxnCounter = 0\<rparr>"

definition zero_EncodedBlockCert :: EncodedBlockCert where
  "zero_EncodedBlockCert =
     \<lparr>ebc_Block = \<lparr>blk_BlockHeader = zero_header, blk_Payset = []\<rparr>, ebc_Certificate = []\<rparr>"

text \<open>One attempt; the call is made under the outer context, without the timeout of the attempt.\<close>

definition fetch_try ::
  "('w, 'l) env \<Rightarrow> nat \<Rightarrow> u64 \<Rightarrow> duration \<Rightarrow> ('w, 'l) sys \<times> (EncodedBlockCert \<times> byte list)
    \<Rightarrow> (bool \<times> goerror option) \<times> (('w, 'l) sys \<times> (EncodedBlockCert \<times> byte list))" where
  "fetch_try env i rnd d sx =
     (case sx of (s, (block, rawBlock)) \<Rightarrow>
        let start = en_now env (sy_w s) in
        case en_BlockRaw env i rnd s of (r, s1) \<Rightarrow>
          (case r of
             Inl e \<Rightarrow> ((isFatalAPIError e, Some e), (s1, (block, rawBlock)))
           | Inr rb \<Rightarrow>
               let s2 = with_cl (updateRTT i (Microseconds (en_now env (sy_w s1) - start))) s1 in
               (case en_Decode env rb block of
                  (Some e, block') \<Rightarrow> ((False, Some e), (s2, (block', rawBlock)))
                | (None, block') \<Rightarrow> ((False, None), (s2, (block', rb))))))"

definition BlockSinkError :: "'l lru \<Rightarrow> u64 \<Rightarrow> goerror \<Rightarrow> 'l NodeCluster \<Rightarrow> 'l NodeCluster go" where
  "BlockSinkError lru rnd err gs = SinkError lru rnd (Some err) gs"

definition fetchBlockRaw :: "('w, 'l) env \<Rightarrow> nat \<Rightarrow> u64 \<Rightarrow> ('w, 'l) sys \<Rightarrow> (bool \<times> ('w, 'l) sys) run" where
  "fetchBlockRaw env i rnd s =
     (case node_backoff env (fetch_try env i rnd) 10 s (zero_EncodedBlockCert, []) of
        None \<Rightarrow> None
      | Some (Some e, (s1, _)) \<Rightarrow>
          Some (go_bind (BlockSinkError (en_lru env) rnd e (sy_cl s1)) (\<lambda>gs. Ret (False, s1\<lparr>sy_cl := gs\<rparr>)))
      | Some (None, (s1, (block, rawBlock))) \<Rightarrow>
          Some (go_bind (BlockSink (en_lru env) (en_we env) (en_now env (sy_w s1)) i block rawBlock (sy_cl s1))
                  (\<lambda>(_, gs). Ret (True, s1\<lparr>sy_cl := gs\<rparr>))))"

section \<open>Booting\<close>

definition genesis_try ::
  "('w, 'l) env \<Rightarrow> nat \<Rightarrow> duration \<Rightarrow> ('w, 'l) sys \<times> string
    \<Rightarrow> (bool \<times> goerror option) \<times> (('w, 'l) sys \<times> string)" where
  "genesis_try env i d sx =
     (case sx of (s, genesis) \<Rightarrow>
        case en_GetGenesis env i d s of (r, s1) \<Rightarrow>
          (case r of Inl e \<Rightarrow> ((False, Some e), (s1, genesis)) | Inr g \<Rightarrow> ((False, None), (s1, g))))"

definition boot :: "('w, 'l) env \<Rightarrow> nat \<Rightarrow> ('w, 'l) sys \<Rightarrow> (bool \<times> ('w, 'l) sys) run" where
  "boot env i s =
     (let s0 = with_cl (upd_node i (\<lambda>n. n\<lparr>nd_latestRound := 0\<rparr>)) (setState env i AnsBooting s) in
      case node_backoff env (genesis_try env i) 0 s0 '''' of
        None \<Rightarrow> None
      | Some (Some e, (s1, _)) \<Rightarrow> run_ret (False, s1)
      | Some (None, (s1, genesis)) \<Rightarrow>
          (case EnsureGenesis genesis (sy_cl s1) of
             (Some err, gs) \<Rightarrow>
               run_ret (False, en_fatal env (s1\<lparr>sy_cl := gs\<lparr>cl_fatalErr := cl_fatalErr gs @ [err]\<rparr>\<rparr>))
           | (None, gs) \<Rightarrow>
               let s2 = s1\<lparr>sy_cl := upd_node i (\<lambda>n. n\<lparr>nd_genesis := genesis\<rparr>) gs\<rparr> in
               run_bind (fetchBlockRaw env i 0 s2) (\<lambda>(archival, s3).
                 updateStatus env i
                   (if archival then with_cl (upd_node i (\<lambda>n. n\<lparr>nd_Catchup := False\<rparr>)) s3 else s3))))"

section \<open>Following the chain\<close>

definition after_try ::
  "('w, 'l) env \<Rightarrow> nat \<Rightarrow> duration \<Rightarrow> ('w, 'l) sys \<times> (u64 \<times> models_NodeStatus option)
    \<Rightarrow> (bool \<times> goerror option) \<times> (('w, 'l) sys \<times> (u64 \<times> models_NodeStatus option))" where
  "after_try env i d sx =
     (case sx of (s, (_, x)) \<Rightarrow>
        let lr = GetLatestRound (sy_cl s) in
        case en_StatusAfterBlock env i lr d s of (r, s1) \<Rightarrow>
          (case r of
             Inl e \<Rightarrow>
               ((False, Some e),
                (if err_kind e \<noteq> Canceled then setState env i AnsFailing s1 else s1, (lr, x)))
           | Inr ns \<Rightarrow> ((False, None), (s1, (lr, Some ns)))))"

definition updateStatusAfter :: "('w, 'l) env \<Rightarrow> nat \<Rightarrow> ('w, 'l) sys \<Rightarrow> (u64 \<times> ('w, 'l) sys) run" where
  "updateStatusAfter env i s =
     (case node_backoff env (after_try env i) 10 s (0, None) of
        None \<Rightarrow> None
      | Some (Some e, (s1, _)) \<Rightarrow> run_ret (0, s1)
      | Some (None, (s1, (lr, None))) \<Rightarrow> Some (Panic NilDeref)
      | Some (None, (s1, (lr, Some ns))) \<Rightarrow>
          (case updateWithStatus env i ns s1 of (ok, s2) \<Rightarrow> run_ret (if ok then lr else 0, s2)))"

partial_function (option) Monitor :: "('w, 'l) env \<Rightarrow> nat \<Rightarrow> ('w, 'l) sys \<Rightarrow> ('w, 'l) sys run" where
  "Monitor env i s =
     (if en_ctx_err env (sy_w s) \<noteq> None then run_ret s
      else
        run_bind (updateStatusAfter env i s) (\<lambda>(lr, s1).
          if lr = 0 then run_ret s1
          else if nd_state (node_at s1 i) \<noteq> AnsSynced then Monitor env i (en_pause env second s1)
          else if GetLatestRound (sy_cl s1) < lr + 1 then
            run_bind (fetchBlockRaw env i (lr + 1) s1) (\<lambda>(ok, s2). if \<not> ok then run_ret s2 else Monitor env i s2)
          else Monitor env i s1))"

partial_function (option) mainLoop :: "('w, 'l) env \<Rightarrow> nat \<Rightarrow> ('w, 'l) sys \<Rightarrow> ('w, 'l) sys run" where
  "mainLoop env i s =
     (if en_ctx_err env (sy_w s) \<noteq> None then run_ret s
      else
        run_bind (boot env i s) (\<lambda>(ok, s1).
          if \<not> ok then mainLoop env i (en_pause env second s1)
          else run_bind (Monitor env i s1) (\<lambda>s2. mainLoop env i (en_pause env second s2))))"

section \<open>LoadBlockSync\<close>

fun try_nodes :: "('w, 'l) env \<Rightarrow> u64 \<Rightarrow> nat list \<Rightarrow> ('w, 'l) sys \<Rightarrow> (bool \<times> ('w, 'l) sys) run" where
  "try_nodes env rnd [] s = run_ret (False, s)"
| "try_nodes env rnd (n # ns) s =
     run_bind (fetchBlockRaw env n rnd s) (\<lambda>(ok, s1). if ok then run_ret (True, s1) else try_nodes env rnd ns s1)"

definition LoadBlockSync :: "('w, 'l) env \<Rightarrow> u64 \<Rightarrow> ('w, 'l) sys \<Rightarrow> (bool \<times> ('w, 'l) sys) run" where
  "LoadBlockSync env rnd s =
     (let gs = sy_cl s in
      if rnd > cl_latestRound gs then
        Some (go_bind (SinkError (en_lru env) rnd None gs) (\<lambda>gs'. Ret (False, s\<lparr>sy_cl := gs'\<rparr>)))
      else if rnd > cl_latestRound gs - CatchupSize + 4 then
        run_bind (try_nodes env rnd (cl_catchupNodes gs) s) (\<lambda>(ok, s1).
          if ok then run_ret (True, s1) else try_nodes env rnd (cl_archNodes (sy_cl s1)) s1)
      else try_nodes env rnd (cl_archNodes gs) s)"

end
