(* ===== verification/Node_Steps.thy ===== *)
theory Node_Steps
  imports Node
begin

text \<open>
  Every operation of a node is a sequence of steps of the cluster, provided that what happens
  while it is blocked is one: the invariant of the cluster and the order on its states
  therefore hold for the whole program, in any interleaving. The operations that are not
  meant to run forever return, and the lemmas say with what.
\<close>

section \<open>Runs that make steps\<close>

text \<open>
  A run that ends, does not panic when \<open>np\<close> holds, and takes the cluster along its steps to a state
  with \<open>Q\<close>; and the weaker statement about a loop, which says nothing unless it returns.
\<close>

fun makes :: "bool \<Rightarrow> 'l lru \<Rightarrow> ('w, 'l) sys \<Rightarrow> ('x \<times> ('w, 'l) sys) run \<Rightarrow> ('x \<Rightarrow> ('w, 'l) sys \<Rightarrow> bool) \<Rightarrow> bool" where
  "makes np lru s None Q \<longleftrightarrow> False"
| "makes np lru s (Some (Panic p)) Q \<longleftrightarrow> \<not> np"
| "makes np lru s (Some (Ret (x, s'))) Q \<longleftrightarrow> csteps lru (sy_cl s) (sy_cl s') \<and> Q x s'"

fun may_step :: "'l lru \<Rightarrow> 'l NodeCluster \<Rightarrow> ('w, 'l) sys run \<Rightarrow> bool" where
  "may_step lru gs (Some (Ret s')) \<longleftrightarrow> csteps lru gs (sy_cl s')"
| "may_step lru gs m \<longleftrightarrow> True"

lemma makes_ret: "csteps lru (sy_cl s) (sy_cl s') \<Longrightarrow> Q x s' \<Longrightarrow> makes np lru s (run_ret (x, s')) Q"
  by (simp add: run_ret_def)

lemma makes_after: "csteps lru (sy_cl s) (sy_cl s1) \<Longrightarrow> makes np lru s1 m Q \<Longrightarrow> makes np lru s m Q"
  by (cases "(np, lru, s1, m, Q)" rule: makes.cases) auto

lemma makes_weaken: "makes np lru s m Q \<Longrightarrow> (np' \<Longrightarrow> np) \<Longrightarrow> (\<And>x s'. Q x s' \<Longrightarrow> Q' x s') \<Longrightarrow> makes np' lru s m Q'"
  by (cases "(np, lru, s, m, Q)" rule: makes.cases) auto

lemma makes_bind:
  assumes "makes np lru s m P"
    and "\<And>x s1. csteps lru (sy_cl s) (sy_cl s1) \<Longrightarrow> P x s1 \<Longrightarrow> makes np lru s1 (f (x, s1)) Q"
  shows "makes np lru s (run_bind m f) Q"
  using assms makes_after by (cases "(np, lru, s, m, P)" rule: makes.cases) fastforce+

lemma makesD:
  assumes "makes np lru s m Q"
  shows "m \<noteq> None" "m = Some (Ret (x, s')) \<Longrightarrow> csteps lru (sy_cl s) (sy_cl s') \<and> Q x s'"
    "np \<Longrightarrow> \<exists>x s'. m = Some (Ret (x, s')) \<and> csteps lru (sy_cl s) (sy_cl s') \<and> Q x s'"
  using assms by (cases "(np, lru, s, m, Q)" rule: makes.cases; auto)+

lemma may_step_bind:
  assumes "\<And>x. m = Some (Ret x) \<Longrightarrow> may_step lru gs (f x)"
  shows "may_step lru gs (run_bind m f)"
  using assms by (cases "(m, f)" rule: run_bind.cases) auto

lemma may_step_ret [simp]: "may_step lru gs (run_ret s') \<longleftrightarrow> csteps lru gs (sy_cl s')"
  by (simp add: run_ret_def)

lemma may_step_trans: "csteps lru gs gs1 \<Longrightarrow> may_step lru gs1 m \<Longrightarrow> may_step lru gs m"
  by (cases "(lru, gs1, m)" rule: may_step.cases) auto

section \<open>What is relied upon\<close>

locale node_env =
  fixes env :: "('w, 'l) env"
  assumes pause_steps: "csteps (en_lru env) (sy_cl s) (sy_cl (en_pause env d s))"
    and Status_steps: "csteps (en_lru env) (sy_cl s) (sy_cl (snd (en_Status env i d s)))"
    and GetGenesis_steps: "csteps (en_lru env) (sy_cl s) (sy_cl (snd (en_GetGenesis env i d s)))"
    and After_steps: "csteps (en_lru env) (sy_cl s) (sy_cl (snd (en_StatusAfterBlock env i lr d s)))"
    and BlockRaw_steps: "csteps (en_lru env) (sy_cl s) (sy_cl (snd (en_BlockRaw env i rnd s)))"
    and room_steps: "csteps (en_lru env) (sy_cl s) (sy_cl (en_room env s))"
    and fatal_steps: "csteps (en_lru env) (sy_cl s) (sy_cl (en_fatal env s))"
    and room_free: "cl_cState (sy_cl (en_room env s)) < 100"
    and Status_clock: "en_now env (sy_w s) \<le> en_now env (sy_w (snd (en_Status env i d s)))"
    and BlockRaw_clock: "en_now env (sy_w s) \<le> en_now env (sy_w (snd (en_BlockRaw env i rnd s)))"
begin

lemma setState_steps:
  assumes "i < length (cl_nodes (sy_cl s))"
  shows "csteps (en_lru env) (sy_cl s) (sy_cl (setState env i st s))"
proof (cases "change_state (en_now env (sy_w s)) i st (sy_cl s)")
  case (Pair changed gs)
  show ?thesis
  proof (cases changed)
    case True
    let ?s1 = "s\<lparr>sy_cl := gs\<rparr>"
    let ?s2 = "if cl_cState gs < cState_cap then ?s1 else en_room env ?s1"
    have 1: "csteps (en_lru env) (sy_cl s) gs" using cs_state[OF assms, of "en_now env (sy_w s)" st gs "en_lru env"] Pair True by simp
    have 2: "csteps (en_lru env) gs (sy_cl ?s2)" using room_steps[of ?s1] by simp
    have "cl_cState (sy_cl ?s2) < 100" using room_free[of ?s1] by (simp add: cState_cap_def)
    then have "cstep (en_lru env) (sy_cl ?s2) (StateUpdate (sy_cl ?s2))" by (rule cs_notify)
    with 1 2 have "csteps (en_lru env) (sy_cl s) (StateUpdate (sy_cl ?s2))" by (meson rtranclp.rtrancl_into_rtrancl rtranclp_trans)
    then show ?thesis using Pair True by (simp add: setState_def with_cl_def Let_def)
  next
    case False
    then show ?thesis using Pair by (simp add: setState_def)
  qed
qed

lemma setState_length:
  "i < length (cl_nodes (sy_cl s)) \<Longrightarrow> length (cl_nodes (sy_cl (setState env i st s))) = length (cl_nodes (sy_cl s))"
  using csteps_length[OF setState_steps] .

lemma updateWithStatus_steps:
  assumes "i < length (cl_nodes (sy_cl s))" "updateWithStatus env i ns s = (ok, s')"
  shows "csteps (en_lru env) (sy_cl s) (sy_cl s') \<and>
    (ok \<longleftrightarrow> \<not> ns_StoppedAtUnsupportedRound ns) \<and> (ok \<longrightarrow> nd_lastStatus (node_at s' i) = Some ns \<and>
       ns_LastRound ns \<le> nd_latestRound (node_at s' i))"
proof (cases "ns_StoppedAtUnsupportedRound ns")
  case True
  then show ?thesis using assms setState_steps[OF assms(1)] by (auto simp: updateWithStatus_def)
next
  case False
  let ?s1 = "setState env i (if ns_CatchupTime ns > 0 then AnsSyncing else AnsSynced) s"
  have r: "ok" "s' = with_cl (record_status i ns) ?s1"
    using assms(2) False by (auto simp: updateWithStatus_def Let_def split: if_splits)
  have len: "i < length (cl_nodes (sy_cl ?s1))" using setState_length[OF assms(1)] assms(1) by simp
  have "csteps (en_lru env) (sy_cl s) (sy_cl ?s1)" by (rule setState_steps[OF assms(1)])
  moreover have "cstep (en_lru env) (sy_cl ?s1) (sy_cl s')" unfolding r with_cl_def using cs_status[OF len] by simp
  moreover have "nd_lastStatus (node_at s' i) = Some ns \<and> ns_LastRound ns \<le> nd_latestRound (node_at s' i)"
    unfolding r using len by (auto simp: with_cl_def record_status_def upd_node_nth not_less)
  ultimately show ?thesis using r(1) False by (simp add: rtranclp.rtrancl_into_rtrancl)
qed

lemma rtt_steps:
  assumes "i < length (cl_nodes (sy_cl s))" "t \<le> t'"
  shows "cstep (en_lru env) (sy_cl s) (sy_cl (with_cl (updateRTT i (Microseconds (t' - t))) s))"
  using cs_rtt[OF assms(1), of "Microseconds (t' - t)"] assms(2) by (simp add: with_cl_def Microseconds_def)

end

lemma node_backoff_n:
  assumes "tries = 0 \<or> tries = 10"
  shows "node_backoff env fn tries s x =
    Some (backoff_n (\<lambda>(s, x). en_ctx_err env (sy_w s)) fn (\<lambda>d (s, x). (en_pause env d s, x))
      (10 * second) (10 * second) (attempts tries) (100 * millisecond) (s, x))"
  using assms unfolding node_backoff_def by (subst Backoff_backoff_n) auto

section \<open>The retried calls\<close>

text \<open>The states that steps lead to, whatever else the retried function carries along.\<close>

definition since :: "'l lru \<Rightarrow> 'l NodeCluster \<Rightarrow> ('w, 'l) sys \<times> 'x \<Rightarrow> bool" where
  "since lru gs0 sx \<longleftrightarrow> csteps lru gs0 (sy_cl (fst sx))"

lemma since_init: "since lru (sy_cl s) (s, x)"
  by (simp add: since_def)

lemma since_steps: "since lru gs0 (s, x) \<Longrightarrow> csteps lru (sy_cl s) (sy_cl s') \<Longrightarrow> since lru gs0 (s', x')"
  by (simp add: since_def)

lemma since_step: "since lru gs0 (s, x) \<Longrightarrow> cstep lru (sy_cl s) (sy_cl s') \<Longrightarrow> since lru gs0 (s', x')"
  by (simp add: since_def)

locale node_run = node_env env for env :: "('w, 'l) env" +
  fixes i :: nat and rnd :: u64 and s0 :: "('w, 'l) sys"
  assumes valid: "i < length (cl_nodes (sy_cl s0))"
begin

lemma since_valid: "since (en_lru env) (sy_cl s0) sx \<Longrightarrow> i < length (cl_nodes (sy_cl (fst sx)))"
  using csteps_length valid by (fastforce simp: since_def)

end

sublocale node_run < status: retried "since (en_lru env) (sy_cl s0)" "\<lambda>(s, x). en_ctx_err env (sy_w s)" "status_try env i"
    "\<lambda>d (s, x). (en_pause env d s, x)"
proof
  fix sx :: "('w, 'l) sys \<times> models_NodeStatus option" and d
  obtain s x where sx: "sx = (s, x)" by (cases sx)
  assume I: "since (en_lru env) (sy_cl s0) sx"
  then show "since (en_lru env) (sy_cl s0) ((\<lambda>d (s, x). (en_pause env d s, x)) d sx)"
    using pause_steps[of s d] by (auto simp: sx intro: since_steps)
  obtain r s1 where st: "en_Status env i d s = (r, s1)" by (metis surj_pair)
  have 1: "since (en_lru env) (sy_cl s0) (s1, x)" using I Status_steps[of s i d] st by (auto simp: sx intro: since_steps)
  have v: "i < length (cl_nodes (sy_cl s1))" using since_valid[OF 1] by simp
  show "since (en_lru env) (sy_cl s0) (snd (status_try env i d sx))"
  proof (cases r)
    case (Inl e)
    have "since (en_lru env) (sy_cl s0) (setState env i AnsFailing s1, x)" by (rule since_steps[OF 1 setState_steps[OF v]])
    then show ?thesis using st Inl by (simp add: status_try_def sx)
  next
    case (Inr ns)
    have "en_now env (sy_w s) \<le> en_now env (sy_w s1)" using Status_clock[of s i d] st by simp
    from since_step[OF 1 rtt_steps[OF v this]]
    have "since (en_lru env) (sy_cl s0)
        (with_cl (updateRTT i (Microseconds (en_now env (sy_w s1) - en_now env (sy_w s)))) s1, Some ns)" .
    then show ?thesis using st Inr by (simp add: status_try_def sx Let_def)
  qed
qed

sublocale node_run < genesis: retried "since (en_lru env) (sy_cl s0)" "\<lambda>(s, x). en_ctx_err env (sy_w s)" "genesis_try env i"
    "\<lambda>d (s, x). (en_pause env d s, x)"
proof
  fix sx :: "('w, 'l) sys \<times> string" and d
  obtain s x where sx: "sx = (s, x)" by (cases sx)
  assume I: "since (en_lru env) (sy_cl s0) sx"
  then show "since (en_lru env) (sy_cl s0) ((\<lambda>d (s, x). (en_pause env d s, x)) d sx)"
    using pause_steps[of s d] by (auto simp: sx intro: since_steps)
  obtain r s1 where st: "en_GetGenesis env i d s = (r, s1)" by (metis surj_pair)
  have "since (en_lru env) (sy_cl s0) (s1, y)" for y using I GetGenesis_steps[of s i d] st by (auto simp: sx intro: since_steps)
  then show "since (en_lru env) (sy_cl s0) (snd (genesis_try env i d sx))" using st by (cases r) (simp_all add: genesis_try_def sx)
qed

sublocale node_run < after: retried "since (en_lru env) (sy_cl s0)" "\<lambda>(s, x). en_ctx_err env (sy_w s)" "after_try env i"
    "\<lambda>d (s, x). (en_pause env d s, x)"
proof
  fix sx :: "('w, 'l) sys \<times> (u64 \<times> models_NodeStatus option)" and d
  obtain s lr0 x where sx: "sx = (s, (lr0, x))" by (cases sx) auto
  assume I: "since (en_lru env) (sy_cl s0) sx"
  then show "since (en_lru env) (sy_cl s0) ((\<lambda>d (s, x). (en_pause env d s, x)) d sx)"
    using pause_steps[of s d] by (auto simp: sx intro: since_steps)
  obtain r s1 where st: "en_StatusAfterBlock env i (GetLatestRound (sy_cl s)) d s = (r, s1)" by (metis surj_pair)
  have 1: "since (en_lru env) (sy_cl s0) (s1, y)" for y :: "u64 \<times> models_NodeStatus option"
    using I After_steps[of s i "GetLatestRound (sy_cl s)" d] st by (auto simp: sx intro: since_steps)
  have v: "i < length (cl_nodes (sy_cl s1))" using since_valid[OF 1[of undefined]] by simp
  show "since (en_lru env) (sy_cl s0) (snd (after_try env i d sx))"
  proof (cases r)
    case (Inl e)
    have "since (en_lru env) (sy_cl s0) (setState env i AnsFailing s1, y)" for y :: "u64 \<times> models_NodeStatus option"
      by (rule since_steps[OF 1 setState_steps[OF v]])
    with Inl st 1 show ?thesis by (simp add: after_try_def sx Let_def)
  next
    case (Inr ns)
    with st 1 show ?thesis by (simp add: after_try_def sx Let_def)
  qed
qed

sublocale node_run < fetch: retried "since (en_lru env) (sy_cl s0)" "\<lambda>(s, x). en_ctx_err env (sy_w s)" "fetch_try env i rnd"
    "\<lambda>d (s, x). (en_pause env d s, x)"
proof
  fix sx :: "('w, 'l) sys \<times> (EncodedBlockCert \<times> byte list)" and d
  obtain s block raw where sx: "sx = (s, (block, raw))" by (cases sx) auto
  assume I: "since (en_lru env) (sy_cl s0) sx"
  then show "since (en_lru env) (sy_cl s0) ((\<lambda>d (s, x). (en_pause env d s, x)) d sx)"
    using pause_steps[of s d] by (auto simp: sx intro: since_steps)
  obtain r s1 where st: "en_BlockRaw env i rnd s = (r, s1)" by (metis surj_pair)
  have 1: "since (en_lru env) (sy_cl s0) (s1, y)" for y :: "EncodedBlockCert \<times> byte list"
    using I BlockRaw_steps[of s i rnd] st by (auto simp: sx intro: since_steps)
  have v: "i < length (cl_nodes (sy_cl s1))" using since_valid[OF 1[of undefined]] by simp
  show "since (en_lru env) (sy_cl s0) (snd (fetch_try env i rnd d sx))"
  proof (cases r)
    case (Inl e)
    then show ?thesis using st 1 by (simp add: fetch_try_def sx Let_def)
  next
    case (Inr rb)
    have "en_now env (sy_w s) \<le> en_now env (sy_w s1)" using BlockRaw_clock[of s i rnd] st by simp
    from since_step[OF 1 rtt_steps[OF v this]]
    have "since (en_lru env) (sy_cl s0) (with_cl (updateRTT i (Microseconds (en_now env (sy_w s1) - en_now env (sy_w s)))) s1, y)"
      for y :: "EncodedBlockCert \<times> byte list" .
    then show ?thesis
      using st Inr by (cases "en_Decode env rb block") (auto simp: fetch_try_def sx Let_def split: option.splits)
  qed
qed

section \<open>Deliveries to the cache\<close>

text \<open>A round is settled when the cache that is responsible for it has a block or an error.\<close>

definition settled :: "'l lru \<Rightarrow> u64 \<Rightarrow> 'l UnifiedBlockCache \<Rightarrow> bool" where
  "settled lru r u \<longleftrightarrow> (\<exists>w b e. uc_view lru w u r = Some (b, e) \<and> (b \<noteq> None \<or> e \<noteq> None))"

definition cached :: "'l lru \<Rightarrow> u64 \<Rightarrow> 'l UnifiedBlockCache \<Rightarrow> bool" where
  "cached lru r u \<longleftrightarrow> (\<exists>w b e. uc_view lru w u r = Some (Some b, e))"

lemma cached_settled: "cached lru r u \<Longrightarrow> settled lru r u"
  by (auto simp: cached_def settled_def)

lemma spec_add_settled: "spec_add b v \<noteq> (None, None)"
  by (cases "(b, v)" rule: spec_add.cases) auto

lemma spec_add_block: "bw_Error b = None \<Longrightarrow> fst (spec_add b v) \<noteq> None"
  by (cases "(b, v)" rule: spec_add.cases) auto

text \<open>\<open>BlockSink\<close> with a cache: the winner and the first to bring a missing block make the wrap and add it.\<close>

lemma BlockSink_eq:
  assumes "SetLatestRound now (bh_Round (blk_BlockHeader (ebc_Block block))) i gs = (won, gs1)" "cl_ucache gs1 = Some u"
  shows "BlockSink lru we now i block raw gs =
    (let sink = go_bind (MakeBlockWrap we now (nc_Id (nd_cfg (cl_nodes gs ! i))) block raw) (\<lambda>r.
           case r of Inl e \<Rightarrow> Ret (False, gs1)
           | Inr bw \<Rightarrow> go_bind (AddBlock lru u bw) (\<lambda>u'. Ret (True, gs1\<lparr>cl_ucache := Some u'\<rparr>)))
     in if won then sink
        else go_bind (IsBlockCached lru u (bh_Round (blk_BlockHeader (ebc_Block block)))) (\<lambda>c.
               if c then Ret (False, gs1) else sink))"
  unfolding BlockSink_def Let_def isBlockCached_def assms prod.case option.case ..

lemma BlockSink_cases:
  assumes "BlockSink lru we now i block raw gs = Ret (sunk, gs')"
    and "SetLatestRound now (bh_Round (blk_BlockHeader (ebc_Block block))) i gs = (won, gs1)"
  obtains (keep) "gs' = gs1" "sunk \<longrightarrow> cl_ucache gs1 = None"
    | (add) u bw u' where "cl_ucache gs1 = Some u" "AddBlock lru u bw = Ret u'" "gs' = gs1\<lparr>cl_ucache := Some u'\<rparr>"
       "MakeBlockWrap we now (nc_Id (nd_cfg (cl_nodes gs ! i))) block raw = Ret (Inr bw)"
proof -
  let ?r = "bh_Round (blk_BlockHeader (ebc_Block block))"
  let ?mk = "MakeBlockWrap we now (nc_Id (nd_cfg (cl_nodes gs ! i))) block raw"
  show thesis
  proof (cases "cl_ucache gs1")
    case None
    with assms keep show thesis
      by (cases ?mk; cases won; cases "ret ?mk") (auto simp: BlockSink_def Let_def isBlockCached_def)
  next
    case (Some u)
    let ?sink = "go_bind ?mk (\<lambda>r. case r of Inl e \<Rightarrow> Ret (False, gs1)
      | Inr bw \<Rightarrow> go_bind (AddBlock lru u bw) (\<lambda>u'. Ret (True, gs1\<lparr>cl_ucache := Some u'\<rparr>)))"
    have "gs' = gs1 \<and> \<not> sunk \<or> ?sink = Ret (sunk, gs')"
      using assms(1) BlockSink_eq[OF assms(2) Some, of lru we raw]
      by (cases won; cases "IsBlockCached lru u ?r") (auto simp: Let_def split: if_splits)
    then show thesis using keep add[OF Some] by (cases ?mk; cases "ret ?mk") (auto simp: go_simps)
  qed
qed

context lru_ops
begin

lemma IsBlockCached_cached: "uc_ok lru linv u \<Longrightarrow> IsBlockCached lru u r = Ret (cached lru r u)"
  by (simp add: IsBlockCached_ok cached_def)

lemma AddBlock_settles:
  assumes "uc_ok lru linv u"
  shows "\<exists>u'. AddBlock lru u b = Ret u' \<and> uc_ok lru linv u' \<and> settled lru (bw_Round b) u' \<and>
    (bw_Error b = None \<longrightarrow> cached lru (bw_Round b) u')"
proof -
  let ?w = "getCacheWithPeek lru u (bw_Round b)"
  obtain u' where u': "AddBlock lru u b = Ret u'" "uc_ok lru linv u'"
    "uc_view lru ?w u' (bw_Round b) = Some (spec_add b (uc_view lru ?w u (bw_Round b)))"
    using AddBlock_ok[OF assms, of b] by (auto simp: Let_def)
  obtain x e where xe: "spec_add b (uc_view lru ?w u (bw_Round b)) = (x, e)" by (metis surj_pair)
  have "settled lru (bw_Round b) u'"
    using u'(3) xe spec_add_settled[of b "uc_view lru ?w u (bw_Round b)"] unfolding settled_def by (metis prod.inject)
  moreover have "cached lru (bw_Round b) u'" if good: "bw_Error b = None"
    unfolding cached_def using spec_add_block[OF good, of "uc_view lru ?w u (bw_Round b)"] u'(3) xe by auto
  ultimately show ?thesis using u'(1,2) by (intro exI[of _ u']) simp
qed

lemma SinkError_steps:
  assumes "cl_ok lru linv gs"
  shows "\<exists>gs'. SinkError lru r err gs = Ret gs' \<and> csteps lru gs gs' \<and>
    (\<forall>u'. cl_ucache gs' = Some u' \<longrightarrow> settled lru r u')"
proof (cases "cl_ucache gs")
  case None
  then show ?thesis by (simp add: SinkError_def)
next
  case (Some u)
  let ?b = "error_wrap r (case err of None \<Rightarrow> ledger_error | Some e \<Rightarrow> e)"
  have "uc_ok lru linv u" using assms Some by (simp add: cl_ok_def)
  from AddBlock_settles[OF this, of ?b] obtain u' where a: "AddBlock lru u ?b = Ret u'" "settled lru r u'" by auto
  have "cstep lru gs (gs\<lparr>cl_ucache := Some u'\<rparr>)" using cs_cache[OF Some cache_add[OF a(1)]] .
  then show ?thesis using a Some by (simp add: SinkError_def r_into_rtranclp)
qed

lemma BlockSink_steps:
  assumes "cl_ok lru linv gs" "i < length (cl_nodes gs)" "BlockSink lru we now i block raw gs = Ret (sunk, gs')"
  shows "csteps lru gs gs' \<and> bh_Round (blk_BlockHeader (ebc_Block block)) \<le> cl_latestRound gs' \<and>
    (sunk \<longrightarrow> (\<forall>u'. cl_ucache gs' = Some u' \<longrightarrow> cached lru (bh_Round (blk_BlockHeader (ebc_Block block))) u'))"
proof -
  let ?r = "bh_Round (blk_BlockHeader (ebc_Block block))"
  obtain won gs1 where w: "SetLatestRound now ?r i gs = (won, gs1)" by (metis surj_pair)
  have s1: "cstep lru gs gs1" using cs_latest[OF assms(2) w] .
  have lr: "?r \<le> cl_latestRound gs1" and uc: "cl_ucache gs1 = cl_ucache gs"
    using w by (auto simp: SetLatestRound_def split: if_splits)
  from assms(3) w show ?thesis
  proof (cases rule: BlockSink_cases)
    case keep
    then show ?thesis using s1 lr by auto
  next
    case (add u bw u')
    have "cl_ucache gs = Some u" using uc add(1) by simp
    then have "uc_ok lru linv u" using assms(1) by (simp add: cl_ok_def)
    from AddBlock_settles[OF this, of bw] add(2) MakeBlockWrap_Inr[OF add(4)]
    have "cached lru ?r u'" by auto
    moreover have "cstep lru gs1 gs'" unfolding add(3) by (rule cs_cache[OF add(1) cache_add[OF add(2)]])
    ultimately show ?thesis using s1 lr add(3) by (auto intro: rtranclp.rtrancl_into_rtrancl)
  qed
qed

text \<open>When the wrapped block can be made, \<open>BlockSink\<close> returns and the block's round is cached, whoever won.\<close>

lemma BlockSink_settles:
  assumes "cl_ok lru linv gs" "cl_ucache gs = Some u"
    and "MakeBlockWrap we now (nc_Id (nd_cfg (cl_nodes gs ! i))) block raw = Ret (Inr bw)"
  shows "\<exists>sunk gs' u'. BlockSink lru we now i block raw gs = Ret (sunk, gs') \<and> cl_ucache gs' = Some u' \<and>
    cached lru (bh_Round (blk_BlockHeader (ebc_Block block))) u'"
proof -
  let ?r = "bh_Round (blk_BlockHeader (ebc_Block block))"
  obtain won gs1 where w: "SetLatestRound now ?r i gs = (won, gs1)" by (metis surj_pair)
  then have uc: "cl_ucache gs1 = Some u" using assms(2) by (auto simp: SetLatestRound_def split: if_splits)
  have u: "uc_ok lru linv u" using assms(1,2) by (simp add: cl_ok_def)
  obtain u' where u': "AddBlock lru u bw = Ret u'" "cached lru ?r u'"
    using AddBlock_settles[OF u, of bw] MakeBlockWrap_Inr[OF assms(3)] by auto
  then show ?thesis
    using BlockSink_eq[OF w uc, of lru we raw] uc u' assms(3) IsBlockCached_cached[OF u, of ?r] by (auto simp: Let_def)
qed

end

section \<open>The operations of a node\<close>

text \<open>
  The nodes are honest about a round when every block that one of them returns for it is a block of that
  round which can be wrapped. The program does not check it.
\<close>

definition honest :: "('w, 'l) env \<Rightarrow> u64 \<Rightarrow> bool" where
  "honest env rnd \<longleftrightarrow>
     (\<forall>i s s1 raw b0 block. en_BlockRaw env i rnd s = (Inr raw, s1) \<and> en_Decode env raw b0 = (None, block) \<longrightarrow>
        bh_Round (blk_BlockHeader (ebc_Block block)) = rnd \<and>
        (\<forall>now src. \<exists>bw. MakeBlockWrap (en_we env) now src block raw = Ret (Inr bw)))"

definition settled_in :: "('w, 'l) env \<Rightarrow> u64 \<Rightarrow> ('w, 'l) sys \<Rightarrow> bool" where
  "settled_in env rnd s \<longleftrightarrow> (\<forall>u. cl_ucache (sy_cl s) = Some u \<longrightarrow> settled (en_lru env) rnd u)"

definition cached_in :: "('w, 'l) env \<Rightarrow> u64 \<Rightarrow> ('w, 'l) sys \<Rightarrow> bool" where
  "cached_in env rnd s \<longleftrightarrow> (\<forall>u. cl_ucache (sy_cl s) = Some u \<longrightarrow> cached (en_lru env) rnd u)"

text \<open>What the last attempt of each operation leaves behind.\<close>

lemma status_try_success: "status_try env i d sx = ((fatal, None), (s1, x)) \<Longrightarrow> \<exists>ns. x = Some ns"
  by (auto simp: status_try_def Let_def split: prod.splits sum.splits)

lemma after_try_success: "after_try env i d sx = ((fatal, None), (s1, x)) \<Longrightarrow> \<exists>lr ns. x = (lr, Some ns)"
  by (auto simp: after_try_def Let_def split: prod.splits sum.splits)

lemma fetch_try_success:
  "fetch_try env i rnd d sx = ((fatal, None), (s1, (block, raw))) \<Longrightarrow>
     \<exists>s2 s3 b0. en_BlockRaw env i rnd s2 = (Inr raw, s3) \<and> en_Decode env raw b0 = (None, block)"
  by (auto simp: fetch_try_def Let_def split: prod.splits sum.splits option.splits)

lemma cl_le_ucache: "cl_le gs gs' \<Longrightarrow> cl_ucache gs' = None \<longleftrightarrow> cl_ucache gs = None"
  by (cases "(cl_ucache gs, cl_ucache gs')" rule: ucache_le.cases) (auto simp: cl_le_def)

context node_run
begin

text \<open>What a caller of \<open>Backoff\<close> gets: the state after the last attempt, and, on success, that attempt.\<close>

lemma backoff_steps:
  assumes "retried (since (en_lru env) (sy_cl s0)) fn (\<lambda>d (s, x). (en_pause env d s, x))" "tries = 0 \<or> tries = 10"
  shows "\<exists>err s1 x. node_backoff env fn tries s0 x0 = Some (err, (s1, x)) \<and>
    csteps (en_lru env) (sy_cl s0) (sy_cl s1) \<and> i < length (cl_nodes (sy_cl s1)) \<and>
    (err = None \<longrightarrow> (\<exists>sx fatal. fn (10 * second) sx = ((fatal, None), (s1, x))))"
proof -
  let ?ctx = "\<lambda>(s, x). en_ctx_err env (sy_w s)" and ?pause = "\<lambda>d (s, x). (en_pause env d s, x)"
  obtain err s1 x where b: "backoff_n ?ctx fn ?pause (10 * second) (10 * second) (attempts tries) (100 * millisecond) (s0, x0)
      = (err, (s1, x))" by (metis surj_pair)
  have s1: "csteps (en_lru env) (sy_cl s0) (sy_cl s1)"
    using retried.backoff_n_inv[OF assms(1) since_init, of ?ctx "10 * second" "10 * second" "attempts tries" "100 * millisecond" x0] b
    by (simp add: since_def)
  moreover have "\<exists>sx fatal. fn (10 * second) sx = ((fatal, None), (s1, x))" if "err = None"
    using retried.backoff_n_success[OF assms(1) since_init b[unfolded that]] by blast
  ultimately show ?thesis
    using node_backoff_n[OF assms(2), of env fn s0 x0] b csteps_length[OF s1] valid by auto
qed

lemma updateStatus_makes:
  "makes True (en_lru env) s0 (updateStatus env i s0) (\<lambda>ok s'. ok \<longrightarrow>
     (\<exists>ns. \<not> ns_StoppedAtUnsupportedRound ns \<and> nd_lastStatus (node_at s' i) = Some ns \<and>
       ns_LastRound ns \<le> cl_latestRound (sy_cl s')))"
proof -
  obtain err s1 x where nb: "node_backoff env (status_try env i) 0 s0 None = Some (err, (s1, x))"
    and s1: "csteps (en_lru env) (sy_cl s0) (sy_cl s1)" and v: "i < length (cl_nodes (sy_cl s1))"
    and ok: "err = None \<Longrightarrow> \<exists>sx fatal. status_try env i (10 * second) sx = ((fatal, None), (s1, x))"
    using backoff_steps[OF status.retried_axioms disjI1[OF refl], of "None"] by blast
  show ?thesis
  proof (cases err)
    case (Some e)
    then show ?thesis using nb s1 by (simp add: updateStatus_def makes_ret)
  next
    case None
    with ok obtain ns where x: "x = Some ns" using status_try_success by blast
    obtain ok s3 where u: "updateWithStatus env i ns s1 = (ok, s3)" by (metis surj_pair)
    note us = updateWithStatus_steps[OF v u]
    let ?f = "\<lambda>gs. snd (SetLatestRound (en_now env (sy_w s3)) (nd_latestRound (cl_nodes gs ! i)) i gs)"
    have run: "updateStatus env i s0 = run_ret (ok, if ok then with_cl ?f s3 else s3)"
      using nb None x u by (simp add: updateStatus_def)
    have v3: "i < length (cl_nodes (sy_cl s3))" using csteps_length[of "en_lru env" "sy_cl s1" "sy_cl s3"] us v by simp
    have "cstep (en_lru env) (sy_cl s3) (?f (sy_cl s3))" by (rule cs_latest[OF v3 prod.collapse[symmetric]])
    moreover have "cl_nodes (?f (sy_cl s3)) = cl_nodes (sy_cl s3)"
      "nd_latestRound (node_at s3 i) \<le> cl_latestRound (?f (sy_cl s3))" by (auto simp: SetLatestRound_def)
    ultimately show ?thesis
      unfolding run by (rule_tac makes_after[OF s1], rule_tac makes_ret)
        (use us in \<open>auto simp: with_cl_def intro: order_trans rtranclp.rtrancl_into_rtrancl\<close>)
  qed
qed

lemma updateStatusAfter_makes: "makes True (en_lru env) s0 (updateStatusAfter env i s0) (\<lambda>lr s'. True)"
proof -
  obtain err s1 x where nb: "node_backoff env (after_try env i) 10 s0 (0, None) = Some (err, (s1, x))"
    and s1: "csteps (en_lru env) (sy_cl s0) (sy_cl s1)" and v: "i < length (cl_nodes (sy_cl s1))"
    and ok: "err = None \<Longrightarrow> \<exists>sx fatal. after_try env i (10 * second) sx = ((fatal, None), (s1, x))"
    using backoff_steps[OF after.retried_axioms disjI2[OF refl], of "(0, None)"] by blast
  show ?thesis
  proof (cases err)
    case (Some e)
    then show ?thesis using nb s1 by (simp add: updateStatusAfter_def makes_ret)
  next
    case None
    with ok obtain lr ns where x: "x = (lr, Some ns)" using after_try_success by blast
    obtain ok s3 where u: "updateWithStatus env i ns s1 = (ok, s3)" by (metis surj_pair)
    then show ?thesis
      using nb None x updateWithStatus_steps[OF v u] by (auto simp: updateStatusAfter_def intro: makes_after[OF s1] makes_ret)
  qed
qed

text \<open>
  A fetch always returns. When it fails, the round is settled in the cache, so that
  nobody waits for it any more; when it succeeds, the block went to \<open>BlockSink\<close> and, from an honest node, is cached.
\<close>

lemma fetch_error_makes:
  assumes "lru_ops (en_lru env) linv cap" "cl_ok (en_lru env) linv (sy_cl s)"
  shows "makes True (en_lru env) s
    (Some (go_bind (SinkError (en_lru env) rnd err (sy_cl s)) (\<lambda>gs. Ret (False, s\<lparr>sy_cl := gs\<rparr>)))) (\<lambda>ok s'. \<not> ok \<and> settled_in env rnd s')"
  using lru_ops.SinkError_steps[OF assms, of rnd err] by (auto simp: settled_in_def)

lemma fetch_backoff:
  "\<exists>err s1 block raw. node_backoff env (fetch_try env i rnd) 10 s0 (zero_EncodedBlockCert, []) = Some (err, (s1, (block, raw))) \<and>
     csteps (en_lru env) (sy_cl s0) (sy_cl s1) \<and> i < length (cl_nodes (sy_cl s1)) \<and>
     (err = None \<longrightarrow> (\<exists>s2 s3 b0. en_BlockRaw env i rnd s2 = (Inr raw, s3) \<and> en_Decode env raw b0 = (None, block)))"
proof -
  obtain err s1 x where nb: "node_backoff env (fetch_try env i rnd) 10 s0 (zero_EncodedBlockCert, []) = Some (err, (s1, x))"
    and s1: "csteps (en_lru env) (sy_cl s0) (sy_cl s1)" and v: "i < length (cl_nodes (sy_cl s1))"
    and ok: "err = None \<longrightarrow> (\<exists>sx fatal. fetch_try env i rnd (10 * second) sx = ((fatal, None), (s1, x)))"
    using backoff_steps[OF fetch.retried_axioms disjI2[OF refl], of "(zero_EncodedBlockCert, [])"] by blast
  obtain block raw where "x = (block, raw)" by (cases x)
  then show ?thesis using nb s1 v ok fetch_try_success by blast
qed

lemma fetchBlockRaw_makes:
  assumes "lru_ops (en_lru env) linv cap" "cl_ok (en_lru env) linv (sy_cl s0)"
  shows "makes (honest env rnd \<and> cl_ucache (sy_cl s0) \<noteq> None) (en_lru env) s0 (fetchBlockRaw env i rnd s0)
    (\<lambda>ok s'. if ok then honest env rnd \<longrightarrow> cached_in env rnd s' else settled_in env rnd s')"
proof -
  let ?L = "en_lru env"
  obtain err s1 block raw where nb: "node_backoff env (fetch_try env i rnd) 10 s0 (zero_EncodedBlockCert, []) = Some (err, (s1, (block, raw)))"
    and s1: "csteps ?L (sy_cl s0) (sy_cl s1)" and v: "i < length (cl_nodes (sy_cl s1))"
    and ok: "err = None \<longrightarrow> (\<exists>s2 s3 b0. en_BlockRaw env i rnd s2 = (Inr raw, s3) \<and> en_Decode env raw b0 = (None, block))"
    using fetch_backoff by blast
  have k1: "cl_ok ?L linv (sy_cl s1)" and uc: "cl_ucache (sy_cl s0) \<noteq> None \<Longrightarrow> cl_ucache (sy_cl s1) \<noteq> None"
    using lru_ops.csteps_ok[OF assms(1) s1 assms(2)] cl_le_ucache[of "sy_cl s0" "sy_cl s1"] by simp_all
  show ?thesis
  proof (rule makes_after[OF s1], cases err)
    case (Some e)
    then show "makes (honest env rnd \<and> cl_ucache (sy_cl s0) \<noteq> None) ?L s1 (fetchBlockRaw env i rnd s0)
        (\<lambda>ok s'. if ok then honest env rnd \<longrightarrow> cached_in env rnd s' else settled_in env rnd s')"
      using nb makes_weaken[OF fetch_error_makes[OF assms(1) k1, of "Some e"]] by (auto simp: fetchBlockRaw_def BlockSinkError_def)
  next
    case None
    then have h: "bh_Round (blk_BlockHeader (ebc_Block block)) = rnd"
      "\<exists>bw. MakeBlockWrap (en_we env) now src block raw = Ret (Inr bw)" if "honest env rnd" for now src
      using that ok unfolding honest_def by blast+
    let ?sink = "BlockSink ?L (en_we env) (en_now env (sy_w s1)) i block raw (sy_cl s1)"
    have run: "fetchBlockRaw env i rnd s0 = Some (go_bind ?sink (\<lambda>(_, gs). Ret (True, s1\<lparr>sy_cl := gs\<rparr>)))"
      using nb None by (simp add: fetchBlockRaw_def BlockSinkError_def)
    have set: "\<exists>sunk gs' u'. ?sink = Ret (sunk, gs') \<and> cl_ucache gs' = Some u' \<and> cached ?L rnd u'"
      if "honest env rnd" "cl_ucache (sy_cl s1) = Some u" for u
      using lru_ops.BlockSink_settles[OF assms(1) k1 that(2)] h[OF that(1)] by metis
    show "makes (honest env rnd \<and> cl_ucache (sy_cl s0) \<noteq> None) ?L s1 (fetchBlockRaw env i rnd s0)
        (\<lambda>ok s'. if ok then honest env rnd \<longrightarrow> cached_in env rnd s' else settled_in env rnd s')"
    proof (cases ?sink)
      case (Panic p)
      then show ?thesis using run set uc by fastforce
    next
      case (Ret y)
      obtain sunk gs' where y: "y = (sunk, gs')" by (cases y)
      have st: "csteps ?L (sy_cl s1) gs'" using lru_ops.BlockSink_steps[OF assms(1) k1 v Ret[unfolded y]] by blast
      then have "cl_ucache gs' = None \<longleftrightarrow> cl_ucache (sy_cl s1) = None"
        using lru_ops.csteps_ok[OF assms(1) st k1] cl_le_ucache by blast
      then show ?thesis using run Ret y st set by (auto simp: cached_in_def)
    qed
  qed
qed

lemma genesis_backoff:
  "\<exists>err s1 g. node_backoff env (genesis_try env i) 0 s0 '''' = Some (err, (s1, g)) \<and>
     csteps (en_lru env) (sy_cl s0) (sy_cl s1) \<and> i < length (cl_nodes (sy_cl s1))"
  using backoff_steps[OF genesis.retried_axioms disjI1[OF refl], of "''''"] by blast

end

section \<open>From any state\<close>

context node_env
begin

lemma run_at: "i < length (cl_nodes (sy_cl s)) \<Longrightarrow> node_run env i s"
  by (intro node_run.intro node_run_axioms.intro) (rule node_env_axioms)

lemmas updateStatus_at = node_run.updateStatus_makes[OF run_at]
lemmas updateStatusAfter_at = node_run.updateStatusAfter_makes[OF run_at]
lemmas fetchBlockRaw_at = node_run.fetchBlockRaw_makes[OF run_at]
lemmas genesis_at = node_run.genesis_backoff[OF run_at]
lemmas fetch_at = node_run.fetch_backoff[OF run_at]

lemma keep_ok:
  assumes "lru_ops (en_lru env) linv cap" "cl_ok (en_lru env) linv (sy_cl s)" "csteps (en_lru env) (sy_cl s) (sy_cl s')"
  shows "cl_ok (en_lru env) linv (sy_cl s')" "i < length (cl_nodes (sy_cl s)) \<Longrightarrow> i < length (cl_nodes (sy_cl s'))"
    "cl_ucache (sy_cl s) \<noteq> None \<Longrightarrow> cl_ucache (sy_cl s') \<noteq> None"
  using lru_ops.csteps_ok[OF assms(1,3,2)] csteps_length[OF assms(3)] cl_le_ucache[of "sy_cl s" "sy_cl s'"] by simp_all

lemma with_step: "cstep lru (sy_cl s) (f (sy_cl s)) \<Longrightarrow> csteps lru (sy_cl s) (sy_cl (with_cl f s))"
  by (simp add: with_cl_def r_into_rtranclp)

text \<open>Booting: what follows a successful genesis check.\<close>

lemma boot_rest_makes:
  assumes "lru_ops (en_lru env) linv cap" "cl_ok (en_lru env) linv (sy_cl s)" "i < length (cl_nodes (sy_cl s))"
  shows "makes False (en_lru env) s (run_bind (fetchBlockRaw env i 0 s) (\<lambda>(archival, s3).
      updateStatus env i (if archival then with_cl (upd_node i (\<lambda>n. n\<lparr>nd_Catchup := False\<rparr>)) s3 else s3))) (\<lambda>_ _. True)"
proof (rule makes_bind)
  show "makes False (en_lru env) s (fetchBlockRaw env i 0 s) (\<lambda>_ _. True)"
    by (rule makes_weaken[OF fetchBlockRaw_at[OF assms(3,1,2)]]) simp_all
  fix archival and s3 :: "('w, 'l) sys" assume s3: "csteps (en_lru env) (sy_cl s) (sy_cl s3)"
  let ?s4 = "if archival then with_cl (upd_node i (\<lambda>n. n\<lparr>nd_Catchup := False\<rparr>)) s3 else s3"
  have v3: "i < length (cl_nodes (sy_cl s3))" using keep_ok(2)[OF assms(1,2) s3 assms(3)] .
  have "csteps (en_lru env) (sy_cl s3) (sy_cl (with_cl (upd_node i (\<lambda>n. n\<lparr>nd_Catchup := False\<rparr>)) s3))"
    by (rule with_step) (rule cs_archival[OF v3])
  then have s4: "csteps (en_lru env) (sy_cl s3) (sy_cl ?s4)" by simp
  then have v4: "i < length (cl_nodes (sy_cl ?s4))" using csteps_length[OF s4] v3 by simp
  show "makes False (en_lru env) s3 (case (archival, s3) of (archival, s3) \<Rightarrow>
      updateStatus env i (if archival then with_cl (upd_node i (\<lambda>n. n\<lparr>nd_Catchup := False\<rparr>)) s3 else s3)) (\<lambda>_ _. True)"
    unfolding prod.case by (rule makes_after[OF s4 makes_weaken[OF updateStatus_at[OF v4]]]) simp_all
qed

lemma boot_start:
  assumes "i < length (cl_nodes (sy_cl s))"
  shows "csteps (en_lru env) (sy_cl s) (sy_cl (with_cl (upd_node i (\<lambda>n. n\<lparr>nd_latestRound := 0\<rparr>)) (setState env i AnsBooting s)))"
proof (rule rtranclp_trans[OF setState_steps[OF assms, of AnsBooting] with_step])
  show "cstep (en_lru env) (sy_cl (setState env i AnsBooting s))
      (upd_node i (\<lambda>n. n\<lparr>nd_latestRound := 0\<rparr>) (sy_cl (setState env i AnsBooting s)))"
    by (rule cs_reset) (simp add: setState_length assms)
qed

lemma boot_makes:
  assumes "lru_ops (en_lru env) linv cap" "cl_ok (en_lru env) linv (sy_cl s)" "i < length (cl_nodes (sy_cl s))"
  shows "makes False (en_lru env) s (boot env i s) (\<lambda>_ _. True)"
proof -
  let ?L = "en_lru env"
  let ?s0 = "with_cl (upd_node i (\<lambda>n. n\<lparr>nd_latestRound := 0\<rparr>)) (setState env i AnsBooting s)"
  note st0 = boot_start[OF assms(3)]
  have v0: "i < length (cl_nodes (sy_cl ?s0))" using csteps_length[OF st0] assms(3) by simp
  obtain err s1 g where g: "node_backoff env (genesis_try env i) 0 ?s0 '''' = Some (err, (s1, g))"
    and st1: "csteps ?L (sy_cl ?s0) (sy_cl s1)" and v1: "i < length (cl_nodes (sy_cl s1))" using genesis_at[OF v0] by blast
  have s1: "csteps ?L (sy_cl s) (sy_cl s1)" using st0 st1 by (rule rtranclp_trans)
  obtain e gs where eg: "EnsureGenesis g (sy_cl s1) = (e, gs)" by (metis surj_pair)
  have gs: "csteps ?L (sy_cl s1) gs" using cs_genesis[OF eg] by blast
  have vg: "i < length (cl_nodes gs)" using csteps_length[OF gs] v1 by simp
  show ?thesis
  proof (rule makes_after[OF s1], cases "err = None \<and> e = None")
    case True
    let ?s2 = "s1\<lparr>sy_cl := upd_node i (\<lambda>n. n\<lparr>nd_genesis := g\<rparr>) gs\<rparr>"
    have "cl_genesis gs = g" using eg True by (auto simp: EnsureGenesis_def split: if_splits)
    then have "cstep ?L gs (sy_cl ?s2)" using cs_adopt[OF vg] by simp
    with gs have s2: "csteps ?L (sy_cl s1) (sy_cl ?s2)" by (rule rtranclp.rtrancl_into_rtrancl)
    have k2: "cl_ok ?L linv (sy_cl ?s2)" using keep_ok(1)[OF assms(1,2) rtranclp_trans[OF s1 s2]] .
    show "makes False ?L s1 (boot env i s) (\<lambda>_ _. True)"
      using makes_after[OF s2 boot_rest_makes[OF assms(1) k2, of i]] vg g eg True by (simp add: boot_def Let_def)
  next
    case False
    have "csteps ?L (sy_cl s1) (sy_cl (en_fatal env (s1\<lparr>sy_cl := gs\<lparr>cl_fatalErr := cl_fatalErr gs @ [er]\<rparr>\<rparr>)))" for er
      using rtranclp.rtrancl_into_rtrancl[OF gs cs_fatal[of ?L gs er]]
        fatal_steps[of "s1\<lparr>sy_cl := gs\<lparr>cl_fatalErr := cl_fatalErr gs @ [er]\<rparr>\<rparr>"] by (auto intro: rtranclp_trans)
    then show "makes False ?L s1 (boot env i s) (\<lambda>_ _. True)"
      using False g eg by (cases err; cases e) (auto simp: boot_def Let_def intro: makes_ret)
  qed
qed

text \<open>The loops over the nodes: every list returns, and one that is not empty settles the round unless a dishonest node succeeds.\<close>

lemma try_nodes_makes:
  assumes "lru_ops (en_lru env) linv cap"
  shows "cl_ok (en_lru env) linv (sy_cl s) \<Longrightarrow> set ns \<subseteq> {..<length (cl_nodes (sy_cl s))} \<Longrightarrow>
    makes (honest env r \<and> cl_ucache (sy_cl s) \<noteq> None) (en_lru env) s (try_nodes env r ns s)
      (\<lambda>ok s'. if ok then honest env r \<longrightarrow> cached_in env r s'
         else (ns = [] \<longrightarrow> settled_in env r s) \<longrightarrow> settled_in env r s')"
proof (induction ns arbitrary: s)
  case Nil
  then show ?case by (auto intro: makes_ret)
next
  case (Cons n ns)
  have v: "n < length (cl_nodes (sy_cl s))" using Cons.prems by simp
  show ?case
    unfolding try_nodes.simps
  proof (rule makes_bind[OF fetchBlockRaw_at[OF v assms Cons.prems(1)]])
    fix ok and s1 :: "('w, 'l) sys"
    assume s1: "csteps (en_lru env) (sy_cl s) (sy_cl s1)"
      and set: "if ok then honest env r \<longrightarrow> cached_in env r s1 else settled_in env r s1"
    note k = keep_ok[OF assms Cons.prems(1) s1]
    have "set ns \<subseteq> {..<length (cl_nodes (sy_cl s1))}" using Cons.prems(2) csteps_length[OF s1] by simp
    from Cons.IH[OF k(1) this] show "makes (honest env r \<and> cl_ucache (sy_cl s) \<noteq> None) (en_lru env) s1
        (case (ok, s1) of (ok, s1) \<Rightarrow> if ok then run_ret (True, s1) else try_nodes env r ns s1)
        (\<lambda>ok s'. if ok then honest env r \<longrightarrow> cached_in env r s'
           else (n # ns = [] \<longrightarrow> settled_in env r s) \<longrightarrow> settled_in env r s')"
      using set k(3) by (cases ok) (auto intro: makes_ret elim!: makes_weaken split: if_splits)
  qed
qed

lemma LoadBlockSync_makes:
  assumes "lru_ops (en_lru env) linv cap" "cl_ok (en_lru env) linv (sy_cl s)"
  shows "makes (honest env r \<and> cl_ucache (sy_cl s) \<noteq> None) (en_lru env) s (LoadBlockSync env r s)
    (\<lambda>ok s'. if ok then honest env r \<longrightarrow> cached_in env r s'
       else (r > cl_latestRound (sy_cl s) \<or> cl_archNodes (sy_cl s) \<noteq> [] \<or>
             r > cl_latestRound (sy_cl s) - CatchupSize + 4 \<and> cl_catchupNodes (sy_cl s) \<noteq> []) \<longrightarrow> settled_in env r s')"
proof -
  let ?L = "en_lru env" and ?gs = "sy_cl s"
  have sub: "set (cl_catchupNodes gs) \<subseteq> {..<length (cl_nodes gs)}" "set (cl_archNodes gs) \<subseteq> {..<length (cl_nodes gs)}"
    if "cl_ok ?L linv gs" for gs using that by (simp_all add: cl_ok_def)
  consider (future) "r > cl_latestRound ?gs"
    | (recent) "\<not> r > cl_latestRound ?gs" "r > cl_latestRound ?gs - CatchupSize + 4" "cl_catchupNodes ?gs \<noteq> []"
    | (old) "\<not> r > cl_latestRound ?gs" "r > cl_latestRound ?gs - CatchupSize + 4 \<longrightarrow> cl_catchupNodes ?gs = []" by blast
  then show ?thesis
  proof cases
    case future
    then show ?thesis
      using lru_ops.SinkError_steps[OF assms, of r None] by (auto simp: LoadBlockSync_def Let_def settled_in_def)
  next
    case old
    then have "LoadBlockSync env r s = try_nodes env r (cl_archNodes ?gs) s"
      by (auto simp: LoadBlockSync_def Let_def run_ret_def)
    then show ?thesis using old makes_weaken[OF try_nodes_makes[OF assms sub(2)[OF assms(2)], of r]] by (auto split: if_splits)
  next
    case recent
    have "makes (honest env r \<and> cl_ucache ?gs \<noteq> None) ?L s (run_bind (try_nodes env r (cl_catchupNodes ?gs) s) (\<lambda>(ok, s1).
        if ok then run_ret (True, s1) else try_nodes env r (cl_archNodes (sy_cl s1)) s1))
      (\<lambda>ok s'. if ok then honest env r \<longrightarrow> cached_in env r s' else settled_in env r s')"
    proof (rule makes_bind[OF try_nodes_makes[OF assms sub(1)[OF assms(2)]]])
      fix ok and s1 :: "('w, 'l) sys"
      assume s1: "csteps ?L ?gs (sy_cl s1)"
        and set: "if ok then honest env r \<longrightarrow> cached_in env r s1
          else (cl_catchupNodes ?gs = [] \<longrightarrow> settled_in env r s) \<longrightarrow> settled_in env r s1"
      note k = keep_ok[OF assms s1]
      from try_nodes_makes[OF assms(1) k(1) sub(2)[OF k(1)], of r]
      show "makes (honest env r \<and> cl_ucache ?gs \<noteq> None) ?L s1 (case (ok, s1) of (ok, s1) \<Rightarrow>
          if ok then run_ret (True, s1) else try_nodes env r (cl_archNodes (sy_cl s1)) s1)
        (\<lambda>ok s'. if ok then honest env r \<longrightarrow> cached_in env r s' else settled_in env r s')"
        using set k(3) recent(3) by (cases ok) (auto intro: makes_ret elim!: makes_weaken split: if_splits)
    qed
    then show ?thesis using recent by (auto simp: LoadBlockSync_def Let_def elim: makes_weaken split: if_splits)
  qed
qed

end

section \<open>The endless loops\<close>

text \<open>
  \<open>Monitor\<close> and \<open>mainLoop\<close> are meant to run until the context is done. Whatever they have done
  when they return is again a sequence of steps.
\<close>

definition loop_inv ::
  "('w, 'l) env \<Rightarrow> ('l \<Rightarrow> bool) \<Rightarrow> ('w, 'l) env \<Rightarrow> nat \<Rightarrow> ('w, 'l) sys \<Rightarrow> ('w, 'l) sys go \<Rightarrow> bool" where
  "loop_inv env linv e j s y \<longleftrightarrow>
     (e = env \<longrightarrow> cl_ok (en_lru env) linv (sy_cl s) \<longrightarrow> j < length (cl_nodes (sy_cl s)) \<longrightarrow>
       may_step (en_lru env) (sy_cl s) (Some y))"

context node_env
begin

lemma may_rec:
  assumes "lru_ops (en_lru env) linv cap" "\<forall>e j s y. M e j s = Some y \<longrightarrow> loop_inv env linv e j s y"
    and "cl_ok (en_lru env) linv (sy_cl s)" "j < length (cl_nodes (sy_cl s))" "csteps (en_lru env) (sy_cl s) (sy_cl s1)"
  shows "may_step (en_lru env) (sy_cl s) (M env j s1)" "may_step (en_lru env) (sy_cl s) (M env j (en_pause env d s1))"
proof -
  have rec: "may_step (en_lru env) (sy_cl s) (M env j s2)" if "csteps (en_lru env) (sy_cl s) (sy_cl s2)" for s2
    using may_step_trans[OF that] keep_ok[OF assms(1,3) that] assms(2)[rule_format, of env j s2] assms(4)
    by (cases "M env j s2") (auto simp: loop_inv_def)
  show "may_step (en_lru env) (sy_cl s) (M env j s1)" "may_step (en_lru env) (sy_cl s) (M env j (en_pause env d s1))"
    by (rule rec assms(5) rtranclp_trans[OF assms(5) pause_steps])+
qed

lemma Monitor_may:
  assumes "lru_ops (en_lru env) linv cap" "Monitor e j s = Some y"
  shows "loop_inv env linv e j s y"
proof (rule Monitor.raw_induct[where P = "loop_inv env linv", OF _ assms(2)], goal_cases)
  case (1 M e j s y)
  have turn: "may_step (en_lru env) (sy_cl s) (run_bind (updateStatusAfter env j s) (\<lambda>(lr, s1).
      if lr = 0 then run_ret s1
      else if nd_state (node_at s1 j) \<noteq> AnsSynced then M env j (en_pause env second s1)
      else if GetLatestRound (sy_cl s1) < lr + 1 then
        run_bind (fetchBlockRaw env j (lr + 1) s1) (\<lambda>(ok, s2). if \<not> ok then run_ret s2 else M env j s2)
      else M env j s1))" (is "may_step _ _ (run_bind _ ?body)")
    if ok: "cl_ok (en_lru env) linv (sy_cl s)" and v: "j < length (cl_nodes (sy_cl s))"
  proof (rule may_step_bind)
    have "\<forall>e j s y. M e j s = Some y \<longrightarrow> loop_inv env linv e j s y" using 1(1) by blast
    note rec = may_rec[OF assms(1) this ok v]
    fix x assume r: "updateStatusAfter env j s = Some (Ret x)"
    obtain lr s1 where x: "x = (lr, s1)" by (cases x)
    have s1: "csteps (en_lru env) (sy_cl s) (sy_cl s1)"
      using makesD(2)[OF updateStatusAfter_at[OF v] r[unfolded x]] by blast
    note k = keep_ok[OF assms(1) ok s1]
    have "may_step (en_lru env) (sy_cl s)
        (run_bind (fetchBlockRaw env j (lr + 1) s1) (\<lambda>(ok, s2). if \<not> ok then run_ret s2 else M env j s2))"
    proof (rule may_step_bind)
      fix x2 assume r2: "fetchBlockRaw env j (lr + 1) s1 = Some (Ret x2)"
      obtain ok2 s2 where x2: "x2 = (ok2, s2)" by (cases x2)
      have "csteps (en_lru env) (sy_cl s1) (sy_cl s2)"
        using makesD(2)[OF fetchBlockRaw_at[OF k(2)[OF v] assms(1) k(1)] r2[unfolded x2]] by blast
      with s1 have "csteps (en_lru env) (sy_cl s) (sy_cl s2)" by (rule rtranclp_trans)
      then show "may_step (en_lru env) (sy_cl s) (case x2 of (ok, s2) \<Rightarrow> if \<not> ok then run_ret s2 else M env j s2)"
        using rec(1) x2 by simp
    qed
    then show "may_step (en_lru env) (sy_cl s) (?body x)" using rec[OF s1] s1 by (simp add: x)
  qed
  show ?case using 1(2) turn by (auto simp: loop_inv_def run_ret_def split: if_splits)
qed

lemma mainLoop_may:
  assumes "lru_ops (en_lru env) linv cap" "mainLoop e j s = Some y"
  shows "loop_inv env linv e j s y"
proof (rule mainLoop.raw_induct[where P = "loop_inv env linv", OF _ assms(2)], goal_cases)
  case (1 M e j s y)
  have turn: "may_step (en_lru env) (sy_cl s) (run_bind (boot env j s) (\<lambda>(ok, s1).
      if \<not> ok then M env j (en_pause env second s1)
      else run_bind (Monitor env j s1) (\<lambda>s2. M env j (en_pause env second s2))))" (is "may_step _ _ (run_bind _ ?body)")
    if ok: "cl_ok (en_lru env) linv (sy_cl s)" and v: "j < length (cl_nodes (sy_cl s))"
  proof (rule may_step_bind)
    have "\<forall>e j s y. M e j s = Some y \<longrightarrow> loop_inv env linv e j s y" using 1(1) by blast
    note rec = may_rec(2)[OF assms(1) this ok v]
    fix x assume r: "boot env j s = Some (Ret x)"
    obtain okb s1 where x: "x = (okb, s1)" by (cases x)
    have s1: "csteps (en_lru env) (sy_cl s) (sy_cl s1)"
      using makesD(2)[OF boot_makes[OF assms(1) ok v] r[unfolded x]] by blast
    note k = keep_ok[OF assms(1) ok s1]
    have "may_step (en_lru env) (sy_cl s) (run_bind (Monitor env j s1) (\<lambda>s2. M env j (en_pause env second s2)))"
    proof (rule may_step_bind)
      fix s2 assume "Monitor env j s1 = Some (Ret s2)"
      then have "csteps (en_lru env) (sy_cl s1) (sy_cl s2)"
        using Monitor_may[OF assms(1), of env j s1 "Ret s2"] k(1) k(2)[OF v] by (simp add: loop_inv_def)
      with s1 show "may_step (en_lru env) (sy_cl s) (M env j (en_pause env second s2))" by (intro rec) (rule rtranclp_trans)
    qed
    then show "may_step (en_lru env) (sy_cl s) (?body x)" using rec[OF s1] by (simp add: x)
  qed
  show ?case using 1(2) turn by (auto simp: loop_inv_def run_ret_def split: if_splits)
qed

lemma loops_step:
  assumes "lru_ops (en_lru env) linv cap" "cl_ok (en_lru env) linv (sy_cl s)" "i < length (cl_nodes (sy_cl s))"
    and "Monitor env i s = Some (Ret s') \<or> mainLoop env i s = Some (Ret s')"
  shows "csteps (en_lru env) (sy_cl s) (sy_cl s')"
  using assms(2-4) Monitor_may[OF assms(1), of env i s] mainLoop_may[OF assms(1), of env i s] by (auto simp: loop_inv_def)

end

end
