(* ===== verification/Node_Properties.thy ===== *)
theory Node_Properties
  imports Node_Steps
begin

text \<open>
  The properties of the cluster and its nodes. For the witnesses there is an environment in
  which the upstream nodes answer from a table, every call takes five milliseconds and no
  other goroutine runs.
\<close>

section \<open>An environment with fixed answers\<close>

record table =
  tb_status :: "nat \<Rightarrow> goerror + models_NodeStatus"
  tb_genesis :: "nat \<Rightarrow> goerror + string"
  tb_block :: "nat \<Rightarrow> u64 \<Rightarrow> goerror + byte list"
  tb_decode :: "byte list \<Rightarrow> goerror option \<times> EncodedBlockCert"
  tb_we :: wrap_env

definition tick :: "(instant, 'l) sys \<Rightarrow> (instant, 'l) sys" where
  "tick s = s\<lparr>sy_w := sy_w s + 5 * millisecond\<rparr>"

definition drained :: "('w, 'l) sys \<Rightarrow> ('w, 'l) sys" where
  "drained s = with_cl (\<lambda>gs. gs\<lparr>cl_cState := min 99 (cl_cState gs)\<rparr>) s"

definition table_env :: "table \<Rightarrow> 'l lru \<Rightarrow> (instant, 'l) env" where
  "table_env t lru =
     \<lparr>en_lru = lru, en_we = tb_we t, en_now = (\<lambda>w. w), en_ctx_err = (\<lambda>_. None),
      en_pause = (\<lambda>d s. s\<lparr>sy_w := sy_w s + d\<rparr>),
      en_Status = (\<lambda>i d s. (tb_status t i, tick s)),
      en_GetGenesis = (\<lambda>i d s. (tb_genesis t i, tick s)),
      en_StatusAfterBlock = (\<lambda>i lr d s. (tb_status t i, tick s)),
      en_BlockRaw = (\<lambda>i r s. (tb_block t i r, tick s)),
      en_Decode = (\<lambda>rb b. tb_decode t rb),
      en_room = drained, en_fatal = (\<lambda>s. s)\<rparr>"

lemma drain_steps: "m \<le> n \<Longrightarrow> csteps lru (gs\<lparr>cl_cState := n\<rparr>) (gs\<lparr>cl_cState := m\<rparr>)"
proof (induction n)
  case (Suc n)
  show ?case
  proof (cases "m = Suc n")
    case False
    have "cstep lru (gs\<lparr>cl_cState := Suc n\<rparr>) (gs\<lparr>cl_cState := Suc n\<rparr>\<lparr>cl_cState := n\<rparr>)" by (rule cs_receive) simp
    then show ?thesis using Suc False by (auto intro: converse_rtranclp_into_rtranclp)
  qed simp
qed simp

interpretation tabled: node_env "table_env t lru" for t and lru :: "'l lru"
proof
  show "csteps (en_lru (table_env t lru)) (sy_cl s) (sy_cl (en_room (table_env t lru) s))" for s
    using drain_steps[of "min 99 (cl_cState (sy_cl s))" "cl_cState (sy_cl s)" lru "sy_cl s"]
    by (simp add: table_env_def drained_def with_cl_def)
qed (simp_all add: table_env_def tick_def drained_def with_cl_def)

text \<open>Two nodes on an empty cache; the second is synced and archival, and the chain is at round 2000.\<close>

definition demo_nodes :: "Node list" where
  "demo_nodes = map (new_node 0)
     [\<lparr>nc_Address = ''http://n1'', nc_Token = '''', nc_Id = ''n1'', nc_ReqLimit = 0\<rparr>,
      \<lparr>nc_Address = ''http://n2'', nc_Token = '''', nc_Id = ''n2'', nc_ReqLimit = 0\<rparr>]"

definition demo_acfg :: AlgodCfg where
  "demo_acfg = \<lparr>al_Nodes = map nd_cfg demo_nodes, al_Http = None, al_Https = None, al_Cache = 0, al_RateLimit = 0, al_Tokens = []\<rparr>"

definition demo_gs :: "lru_list NodeCluster" where
  "demo_gs = (NewCluster 0 (Some (New lru_list_ops)) demo_acfg)\<lparr>cl_latestRound := 2000, cl_lastSrc := Some 1,
     cl_nodes := [demo_nodes ! 0, (demo_nodes ! 1)\<lparr>nd_Catchup := False, nd_state := AnsSynced, nd_rttEwma := 3\<rparr>],
     cl_archNodes := [1]\<rparr>"

definition demo_sys :: "(instant, lru_list) sys" where
  "demo_sys = \<lparr>sy_w = 0, sy_cl = demo_gs\<rparr>"

text \<open>Both nodes report that they do not have the block.\<close>

definition demo_table :: table where
  "demo_table =
     \<lparr>tb_status = (\<lambda>i. Inr \<lparr>ns_LastRound = 2001, ns_CatchupTime = 0, ns_StoppedAtUnsupportedRound = False, ns_rest = ''''\<rparr>),
      tb_genesis = (\<lambda>i. Inr ''mainnet''),
      tb_block = (\<lambda>i r. Inl (GoError NotFound ''no such block'')),
      tb_decode = (\<lambda>rb. (None, zero_EncodedBlockCert)),
      tb_we = \<lparr>we_conv = \<lparr>ce_ga = \<lparr>ga_AddrString = string_of, ga_AddrIsZero = (\<lambda>a. a = []), ga_MsigBlank = (\<lambda>_. True),
                 ga_LsigBlank = (\<lambda>_. True), ga_DecodeSignedTxn = (\<lambda>h s. Inl (new_error ''bad'')), ga_TxnID = (\<lambda>t. '''')\<rparr>,
                 ce_IsPrint = (\<lambda>_. True)\<rparr>, we_enc_block = (\<lambda>b. Inr [1]), we_enc_resp = (\<lambda>r. Inr [2])\<rparr>\<rparr>"

abbreviation demo_env :: "(instant, lru_list) env" where
  "demo_env \<equiv> table_env demo_table lru_list_ops"

lemma demo_env_sel [simp]: "en_lru demo_env = lru_list_ops" "sy_cl demo_sys = demo_gs"
  by (simp_all add: table_env_def demo_sys_def)

lemma demo_gs_sel [simp]:
  "length (cl_nodes demo_gs) = 2" "cl_ucache demo_gs = Some (New lru_list_ops)" "cl_latestRound demo_gs = 2000"
  "cl_archNodes demo_gs = [1]" "cl_catchupNodes demo_gs = []"
  by (simp_all add: demo_gs_def NewCluster_rest)

lemmas demo_cache_ok = lrul.New_uc_ok

lemma demo_ok: "cl_ok lru_list_ops lrul_inv demo_gs"
proof -
  have "nd_genesis (cl_nodes demo_gs ! i) \<in> {'''', cl_genesis demo_gs} \<and> 0 \<le> nd_rttEwma (cl_nodes demo_gs ! i)" if "i < 2" for i
    using that by (auto simp: less_Suc_eq numeral_2_eq_2 demo_gs_def demo_nodes_def new_node_def)
  then show ?thesis
    using demo_cache_ok by (simp add: cl_ok_def) (simp add: demo_gs_def NewCluster_rest)
qed

interpretation demo_run: node_run demo_env 1 7 demo_sys
  by unfold_locales simp

section \<open>The cluster\<close>

text \<open>
  C24. In every state that the goroutines can bring a new cluster to, in any interleaving: the
  lists of synced nodes name existing nodes and no node twice, the archival list holds only
  archival nodes, the channels are within their capacity, the cache invariant holds, and
  any two nodes that have passed the genesis check agree on the genesis.
\<close>

theorem cluster_invariant:
  assumes "lru_contract lru linv cap" "csteps lru (NewCluster now (Some (New lru)) cfg) gs"
  shows "distinct (GetSyncedNodesByRTT gs) \<and> set (GetSyncedNodesByRTT gs) \<subseteq> {..<length (al_Nodes cfg)} \<and>
    (\<forall>i \<in> set (GetArchSyncedNodesByRTT gs). \<not> nd_Catchup (cl_nodes gs ! i)) \<and>
    cl_cState gs \<le> 100 \<and> length (cl_bpSink gs) \<le> 100 \<and>
    (\<exists>u. cl_ucache gs = Some u \<and> uc_ok lru linv u) \<and>
    (\<forall>i < length (cl_nodes gs). \<forall>j < length (cl_nodes gs).
       nd_genesis (cl_nodes gs ! i) \<noteq> '''' \<and> nd_genesis (cl_nodes gs ! j) \<noteq> '''' \<longrightarrow>
       nd_genesis (cl_nodes gs ! i) = nd_genesis (cl_nodes gs ! j))"
proof -
  note ops = lru_contract.axioms(1)[OF assms(1)]
  note new = lru_contract.New_uc_ok[OF assms(1)]
  then have "cl_ok lru linv (NewCluster now (Some (New lru)) cfg)" by (intro NewCluster_ok) simp
  from lru_ops.csteps_ok[OF ops assms(2) this]
  have ok: "cl_ok lru linv gs" and le: "cl_le (NewCluster now (Some (New lru)) cfg) gs" by simp_all
  have len: "length (cl_nodes gs) = length (al_Nodes cfg)"
    using csteps_length[OF assms(2)] by (simp add: NewCluster_nodes)
  have "\<exists>u. cl_ucache gs = Some u"
    using le by (cases "cl_ucache gs") (simp_all add: cl_le_def NewCluster_rest)
  then obtain u where u: "cl_ucache gs = Some u" "uc_ok lru linv u" using ok by (auto simp: cl_ok_def)
  have g: "nd_genesis (cl_nodes gs ! i) \<in> {'''', cl_genesis gs}" if "i < length (cl_nodes gs)" for i
    using ok that by (simp add: cl_ok_def)
  have "nd_genesis (cl_nodes gs ! i) = nd_genesis (cl_nodes gs ! j)"
    if "i < length (cl_nodes gs)" "j < length (cl_nodes gs)" "nd_genesis (cl_nodes gs ! i) \<noteq> ''''"
      "nd_genesis (cl_nodes gs ! j) \<noteq> ''''" for i j
    using g[OF that(1)] g[OF that(2)] that(3,4) by auto
  then show ?thesis
    using ok u len
    by (simp add: cl_ok_def GetSyncedNodesByRTT_def GetArchSyncedNodesByRTT_def GetCatchupSyncedNodesByRTT_def)
qed

theorem cluster_invariant_witness:
  "distinct (GetSyncedNodesByRTT (updateNodeLists (NewCluster 0 (Some (New lru_list_ops)) demo_acfg)))"
proof -
  have "csteps lru_list_ops (NewCluster 0 (Some (New lru_list_ops)) demo_acfg)
      (updateNodeLists (NewCluster 0 (Some (New lru_list_ops)) demo_acfg))"
    by (rule r_into_rtranclp) (rule cs_lists)
  from cluster_invariant[OF lrul.lru_contract_axioms this] show ?thesis by blast
qed

text \<open>
  C25. The cluster moves only forward along any sequence of steps: the latest round never
  decreases, the genesis never changes once it is known, nodes and their configuration stay, an archival
  node stays archival, and no broadcast or fatal error is taken back.
\<close>

theorem cluster_monotone:
  assumes "lru_contract lru linv cap" "cl_ok lru linv gs" "csteps lru gs gs'"
  shows "cl_latestRound gs \<le> cl_latestRound gs' \<and> (cl_genesis gs \<noteq> '''' \<longrightarrow> cl_genesis gs' = cl_genesis gs) \<and>
    map nd_cfg (cl_nodes gs') = map nd_cfg (cl_nodes gs) \<and>
    (\<forall>i < length (cl_nodes gs). \<not> nd_Catchup (cl_nodes gs ! i) \<longrightarrow> \<not> nd_Catchup (cl_nodes gs' ! i)) \<and>
    (\<exists>es. cl_fatalErr gs' = cl_fatalErr gs @ es) \<and> (\<exists>bs. cl_broadcasts gs' = cl_broadcasts gs @ bs) \<and>
    cl_ok lru linv gs'"
proof -
  note ops = lru_contract.axioms(1)[OF assms(1)]
  have ok: "cl_ok lru linv gs'" and le: "cl_le gs gs'" using lru_ops.csteps_ok[OF ops assms(3,2)] by simp_all
  have "map nd_cfg (cl_nodes gs') = map nd_cfg (cl_nodes gs)"
    using le by (intro nth_equalityI) (simp_all add: cl_le_def)
  then show ?thesis using ok le unfolding cl_le_def by blast
qed

theorem cluster_monotone_witness:
  "cl_latestRound demo_gs \<le> cl_latestRound (snd (SetLatestRound 0 2001 0 demo_gs))"
proof -
  have "csteps lru_list_ops demo_gs (snd (SetLatestRound 0 2001 0 demo_gs))"
    by (rule r_into_rtranclp) (rule cs_latest[OF _ prod.collapse[symmetric]], simp)
  from cluster_monotone[OF lrul.lru_contract_axioms demo_ok this] show ?thesis by blast
qed

text \<open>
  C30. \<open>updateNodeLists\<close>: each list holds exactly the synced nodes of its kind, by ascending response time, and
  nodes with the same response time keep their configured order.
\<close>

theorem updateNodeLists_sorted:
  "(let gs' = updateNodeLists gs; rtt = (\<lambda>i. nd_rttEwma (cl_nodes gs ! i)) in
     set (cl_catchupNodes gs') = {i. i < length (cl_nodes gs) \<and> Synced (cl_nodes gs ! i) \<and> nd_Catchup (cl_nodes gs ! i)} \<and>
     set (cl_archNodes gs') = {i. i < length (cl_nodes gs) \<and> Synced (cl_nodes gs ! i) \<and> \<not> nd_Catchup (cl_nodes gs ! i)} \<and>
     sorted (map rtt (cl_catchupNodes gs')) \<and> sorted (map rtt (cl_archNodes gs')) \<and>
     (\<forall>x. sorted (filter (\<lambda>i. rtt i = x) (cl_catchupNodes gs')) \<and> sorted (filter (\<lambda>i. rtt i = x) (cl_archNodes gs'))))"
proof -
  have stable: "sorted (filter (\<lambda>i. f i = x) (sort_key f (filter P [0..<n])))" for f :: "nat \<Rightarrow> rat" and x P n
  proof -
    have "filter (\<lambda>i. f i = x) (sort_key f (filter P [0..<n])) = filter (\<lambda>i. f i = x) (filter P [0..<n])"
      by (rule sort_key_stable)
    then show ?thesis by (simp add: sorted_wrt_filter)
  qed
  show ?thesis by (auto simp: updateNodeLists_eq synced_ids_def Let_def stable)
qed



text \<open>
  The response-time average: it is never negative, and the first measurement replaces the initial 100 seconds by
  the measured milliseconds, up to the rounding of the 24-bit mantissa.
\<close>

theorem updateRTT_first:
  assumes "0 \<le> rtt" "0 \<le> us" "us < 2 ^ 24"
  shows "0 \<le> updateRTT_val rtt us \<and>
    (rtt > 99999 \<longrightarrow> \<bar>updateRTT_val rtt us - of_int us / 1000\<bar> \<le> max (1 / 2 ^ 149) (of_int us / 1000 / 2 ^ 23) / 2)"
  using assms updateRTT_nonneg[of rtt us] f32_round_error[of "of_int us / 1000"]
  by (simp add: updateRTT_val_def f32_div_def f32_of_int_exact)

theorem updateRTT_first_witness: "0 \<le> updateRTT_val 100000000 12345"
  using updateRTT_first[of 100000000 12345] by simp

section \<open>The operations of a node\<close>

text \<open>
  C26. Whatever a node's goroutine does, when an operation returns, the cluster is well formed
  and has only moved forward (in the order \<open>cl_le\<close>): for \<open>updateStatus\<close>, \<open>updateStatusAfter\<close>,
  \<open>fetchBlockRaw\<close>, \<open>boot\<close>, \<open>LoadBlockSync\<close> and the two endless loops.
\<close>

theorem node_operations_safe:
  assumes "node_env env" "lru_contract (en_lru env) linv cap"
    and "cl_ok (en_lru env) linv (sy_cl s)" "i < length (cl_nodes (sy_cl s))"
    and "updateStatus env i s = Some (Ret (ok, s')) \<or> updateStatusAfter env i s = Some (Ret (lr, s')) \<or>
      fetchBlockRaw env i rnd s = Some (Ret (ok, s')) \<or> boot env i s = Some (Ret (ok, s')) \<or>
      LoadBlockSync env rnd s = Some (Ret (ok, s')) \<or> Monitor env i s = Some (Ret s') \<or> mainLoop env i s = Some (Ret s')"
  shows "cl_ok (en_lru env) linv (sy_cl s') \<and> cl_le (sy_cl s) (sy_cl s')"
proof -
  note ops = lru_contract.axioms(1)[OF assms(2)]
  have "csteps (en_lru env) (sy_cl s) (sy_cl s')"
    using assms(5) makesD(2)[OF node_env.updateStatus_at[OF assms(1,4)]] makesD(2)[OF node_env.updateStatusAfter_at[OF assms(1,4)]]
      makesD(2)[OF node_env.fetchBlockRaw_at[OF assms(1,4) ops assms(3)]] makesD(2)[OF node_env.boot_makes[OF assms(1) ops assms(3,4)]]
      makesD(2)[OF node_env.LoadBlockSync_makes[OF assms(1) ops assms(3)]] node_env.loops_step[OF assms(1) ops assms(3,4)]
    by blast
  from lru_ops.csteps_ok[OF ops this assms(3)] show ?thesis .
qed

theorem node_operations_safe_witness:
  "\<exists>ok s'. updateStatus demo_env 1 demo_sys = Some (Ret (ok, s')) \<and> cl_ok lru_list_ops lrul_inv (sy_cl s') \<and>
     cl_le demo_gs (sy_cl s')"
proof -
  obtain ok s' where r: "updateStatus demo_env 1 demo_sys = Some (Ret (ok, s'))"
    using makesD(3)[OF demo_run.updateStatus_makes] by blast
  have "cl_ok (en_lru demo_env) lrul_inv (sy_cl s') \<and> cl_le (sy_cl demo_sys) (sy_cl s')"
    by (rule node_operations_safe[where cap = fst and i = 1 and ok = ok])
       (use r tabled.node_env_axioms lrul.lru_contract_axioms demo_ok in simp_all)
  with r show ?thesis by simp
qed




text \<open>For the witness the nodes have the block of round 0.\<close>

definition good_table :: table where
  "good_table = demo_table\<lparr>tb_block := (\<lambda>i r. Inr [9])\<rparr>"

lemma demo_wraps: "\<exists>bw. MakeBlockWrap (tb_we demo_table) now src zero_EncodedBlockCert raw = Ret (Inr bw)"
proof -
  have "EncodeJson (we_enc_block (tb_we demo_table)) b = Inr [1]" "EncodeJson (we_enc_resp (tb_we demo_table)) x = Inr [2]"
    for b x by (simp_all add: EncodeJson_def demo_table_def)
  then show ?thesis
    by (simp add: MakeBlockWrap_def GenerateBlock_def genTransactions_def zero_EncodedBlockCert_def zero_header_def Let_def)
qed

lemma good_honest: "honest (table_env good_table lru) 0"
proof -
  have "tb_we good_table = tb_we demo_table" "tb_decode good_table raw = (None, zero_EncodedBlockCert)" for raw
    by (simp_all add: good_table_def demo_table_def)
  then show ?thesis
    unfolding honest_def using demo_wraps by (simp add: table_env_def zero_EncodedBlockCert_def zero_header_def)
qed


text \<open>
  Without a synced node for the round, \<open>LoadBlockSync\<close> gives up without a word: the state is
  unchanged, so a round that was promised to a waiting reader stays unresolved until the reader's own
  deadline.
\<close>

theorem LoadBlockSync_no_nodes:
  assumes "cl_catchupNodes (sy_cl s) = []" "cl_archNodes (sy_cl s) = []" "rnd \<le> cl_latestRound (sy_cl s)"
  shows "LoadBlockSync env rnd s = Some (Ret (False, s))"
  using assms by (auto simp: LoadBlockSync_def Let_def run_ret_def)

theorem LoadBlockSync_no_nodes_witness:
  "LoadBlockSync demo_env 5 (with_cl (\<lambda>gs. gs\<lparr>cl_archNodes := []\<rparr>) demo_sys) =
     Some (Ret (False, with_cl (\<lambda>gs. gs\<lparr>cl_archNodes := []\<rparr>) demo_sys))"
  by (rule LoadBlockSync_no_nodes) (simp_all add: with_cl_def word_le_nat_alt)

text \<open>
  A block that \<open>BlockSink\<close> accepts is in the cache afterwards, and the latest round of the
  cluster is at least the block's round, whether or not it was accepted.
\<close>

theorem BlockSink_caches:
  assumes "lru_contract lru linv cap" "cl_ok lru linv gs" "i < length (cl_nodes gs)"
    and "BlockSink lru we now i block raw gs = Ret (sunk, gs')"
  shows "bh_Round (blk_BlockHeader (ebc_Block block)) \<le> cl_latestRound gs' \<and> cl_ok lru linv gs' \<and>
    (sunk \<longrightarrow> (\<forall>u. cl_ucache gs' = Some u \<longrightarrow>
       IsBlockCached lru u (bh_Round (blk_BlockHeader (ebc_Block block))) = Ret True))"
proof -
  note ops = lru_contract.axioms(1)[OF assms(1)]
  note b = lru_ops.BlockSink_steps[OF ops assms(2-4)]
  then have ok: "cl_ok lru linv gs'" using lru_ops.csteps_ok[OF ops _ assms(2)] by blast
  then have "IsBlockCached lru u r = Ret (cached lru r u)" if "cl_ucache gs' = Some u" for u r
    using that lru_ops.IsBlockCached_cached[OF ops] by (simp add: cl_ok_def)
  with b ok show ?thesis by auto
qed

theorem BlockSink_caches_witness:
  "\<exists>gs' u. BlockSink lru_list_ops (tb_we demo_table) 0 1 zero_EncodedBlockCert [9] demo_gs = Ret (True, gs') \<and>
     cl_ucache gs' = Some u \<and> IsBlockCached lru_list_ops u 0 = Ret True"
proof -
  have r0: "bh_Round (blk_BlockHeader (ebc_Block zero_EncodedBlockCert)) = 0"
    "blk_Payset (ebc_Block zero_EncodedBlockCert) = []"
    by (simp_all add: zero_EncodedBlockCert_def zero_header_def)
  obtain bw where bw: "MakeBlockWrap (tb_we demo_table) 0 (nc_Id (nd_cfg (cl_nodes demo_gs ! 1))) zero_EncodedBlockCert [9]
      = Ret (Inr bw)"
    using demo_wraps by blast
  have nc: "IsBlockCached lru_list_ops (New lru_list_ops) 0 = Ret False"
    by (simp add: IsBlockCached_def bc_IsBlockCached_def New_def lru_list_ops_def lrul_Peek_def lrul_New_def)
  obtain u where u: "AddBlock lru_list_ops (New lru_list_ops) bw = Ret u" using lrul.AddBlock_ok[OF demo_cache_ok] by blast
  have run: "BlockSink lru_list_ops (tb_we demo_table) 0 1 zero_EncodedBlockCert [9] demo_gs =
      Ret (True, demo_gs\<lparr>cl_ucache := Some u\<rparr>)"
    using bw nc u by (simp add: BlockSink_def r0 SetLatestRound_def isBlockCached_def)
  have v: "1 < length (cl_nodes demo_gs)" by simp
  from BlockSink_caches[OF lrul.lru_contract_axioms demo_ok v run] run show ?thesis by (auto simp: r0)
qed

text \<open>
  A cluster at round 0 never follows the chain: \<open>updateStatusAfter\<close> answers with round 0 although the node
  gave a good status, \<open>Monitor\<close> takes it for a failure and returns after one turn, without fetching a block.
\<close>

theorem Monitor_round_zero:
  assumes "en_ctx_err env (sy_w s) = None" "cl_latestRound (sy_cl s) = 0"
    and "en_StatusAfterBlock env i 0 (10 * second) s = (Inr ns, s1)"
  shows "Monitor env i s = Some (Ret (snd (updateWithStatus env i ns s1)))"
proof -
  have "node_backoff env (after_try env i) 10 s (0, None) = Some (None, (s1, (0, Some ns)))"
    unfolding node_backoff_def using assms
    by (subst Backoff.simps) (simp add: after_try_def GetLatestRound_def)
  then have "updateStatusAfter env i s = Some (Ret (0, snd (updateWithStatus env i ns s1)))"
    by (simp add: updateStatusAfter_def run_ret_def split: prod.splits)
  then show ?thesis using assms(1) by (subst Monitor.simps) (simp add: run_ret_def)
qed

theorem Monitor_round_zero_witness:
  "\<exists>s'. Monitor demo_env 1 (with_cl (\<lambda>gs. gs\<lparr>cl_latestRound := 0\<rparr>) demo_sys) = Some (Ret s')"
proof -
  let ?s = "with_cl (\<lambda>gs. gs\<lparr>cl_latestRound := 0\<rparr>) demo_sys"
  obtain ns where ns: "en_StatusAfterBlock demo_env 1 0 (10 * second) ?s = (Inr ns, tick ?s)"
    by (simp add: table_env_def demo_table_def)
  have "en_ctx_err demo_env (sy_w ?s) = None" "cl_latestRound (sy_cl ?s) = 0"
    by (simp_all add: table_env_def with_cl_def)
  from Monitor_round_zero[OF this ns] show ?thesis by blast
qed


end
