(* ===== verification/Cache_Miss.thy ===== *)
theory Cache_Miss
  imports Provenance Httpsrv Node_Properties
begin

text \<open>
  What happens to a request for a block. First \<open>GetBlock\<close> of the cluster on every state of the two
  caches, with the load that it starts. Then the whole life of a miss: the call that waits, the load that was
  started for it, run by \<open>LoadBlockSync\<close> of theory \<open>Node\<close>, and the call that is woken with an answer.
  The second part asks for an environment in which nobody else changes the cache while the load runs (locale
  \<open>quiet_env\<close>): an entry that is evicted meanwhile takes its waiters with it.
\<close>

section \<open>The running part of a lookup\<close>

text \<open>A lookup misses when the cache does not know the round or has only an error for it.\<close>

definition missed :: "slot option \<Rightarrow> bool" where
  "missed v \<longleftrightarrow> (case v of None \<Rightarrow> True | Some (b, e) \<Rightarrow> e \<noteq> None)"

definition view_error :: "slot option \<Rightarrow> goerror option" where
  "view_error v = (case v of None \<Rightarrow> None | Some (b, e) \<Rightarrow> e)"

lemma spec_get_missed: "missed v \<Longrightarrow> \<exists>k. spec_get v = Some (None, k, view_error v)"
  by (cases v rule: spec_get.cases) (auto simp: missed_def view_error_def)

text \<open>Two caches that differ only in the order of use.\<close>

definition same_cache :: "'l lru \<Rightarrow> 'l UnifiedBlockCache \<Rightarrow> 'l UnifiedBlockCache \<Rightarrow> bool" where
  "same_cache lru u u' \<longleftrightarrow> uc_store u' = uc_store u \<and> uc_loads u' = uc_loads u \<and>
     (\<forall>w. lru_Peek lru (bc_c (sel_cache w u')) = lru_Peek lru (bc_c (sel_cache w u)) \<and>
          bc_last (sel_cache w u') = bc_last (sel_cache w u))"

lemma same_cache_trans: "same_cache lru u u' \<Longrightarrow> same_cache lru u' u'' \<Longrightarrow> same_cache lru u u''"
  by (simp add: same_cache_def)

lemma same_cache_view: "same_cache lru u u' \<Longrightarrow> uc_view lru w u' = uc_view lru w u"
  by (auto simp: same_cache_def uc_view_def cache_view_def)

lemma same_cache_route:
  assumes "same_cache lru u u'"
  shows "getCacheWithPeek lru u' r = getCacheWithPeek lru u r"
proof -
  have "lru_Peek lru (bc_c (sel_cache ArchCache u')) = lru_Peek lru (bc_c (sel_cache ArchCache u))"
    "bc_last (sel_cache CatchupCache u') = bc_last (sel_cache CatchupCache u)"
    using assms by (simp_all only: same_cache_def)
  then show ?thesis by (simp add: getCacheWithPeek_def IsBlockPromised_def)
qed

text \<open>
  The caches in which a reader waits: the entry to which the next delivery for the round goes, with
  the reader's channel, and no block for the round.
\<close>

definition held :: "'l lru \<Rightarrow> u64 \<Rightarrow> nat \<Rightarrow> 'l UnifiedBlockCache \<Rightarrow> bool" where
  "held lru r a u \<longleftrightarrow> lru_Peek lru (bc_c (sel_cache (getCacheWithPeek lru u r) u)) r = Some a"

definition awaits :: "'l lru \<Rightarrow> u64 \<Rightarrow> nat \<Rightarrow> nat \<Rightarrow> 'l UnifiedBlockCache \<Rightarrow> bool" where
  "awaits lru r a ch u \<longleftrightarrow> held lru r a u \<and> be_WaitFor (st_entries (uc_store u) ! a) = Some ch \<and> \<not> cached lru r u"

lemma gb_run_step:
  "0 < n \<Longrightarrow> gb_step lru r pc u = Ret (pc1, u1) \<Longrightarrow> gb_run n lru r pc u = gb_run (n - 1) lru r pc1 u1"
  by (cases n) simp_all

context lru_ops
begin

lemma gb_lookup_same:
  assumes "uc_ok lru linv u" "pc \<in> gb_lookups"
  shows "\<exists>pc' u'. gb_lookup lru r pc u = Ret (pc', u') \<and> uc_ok lru linv u' \<and> same_cache lru u u' \<and>
    (case spec_get (uc_view lru (gb_cache pc) u r) of
       Some (b, k, e) \<Rightarrow> pc' = gb_next r pc b e
     | None \<Rightarrow> \<exists>a ch. pc' = GB_Waiting pc a ch \<and> lru_Peek lru (bc_c (sel_cache (gb_cache pc) u)) r = Some a \<and>
         be_WaitFor (st_entries (uc_store u) ! a) = Some ch)"
proof -
  let ?w = "gb_cache pc" and ?h = "uc_store u"
  let ?bc = "sel_cache ?w u"
  have s: "store_ok ?h" "cache_ok lru linv ?bc ?h" "linv (bc_c ?bc)"
    using assms(1) uc_ok_sel[of lru linv u ?w] by (simp_all add: cache_ok_def)
  obtain res bc' where g: "getBlock_start lru ?bc r ?h = Ret (res, bc')"
    and c: "case spec_get (cache_view lru ?bc ?h r) of
       Some (b, k, e) \<Rightarrow> res = GB_Ret b k e
     | None \<Rightarrow> (\<exists>a ch. res = GB_Wait a ch \<and> lru_Peek lru (bc_c ?bc) r = Some a \<and> be_WaitFor (st_entries ?h ! a) = Some ch)"
    using getBlock_start_ok[OF s(1,2), of r] by blast
  have "bc' = ?bc\<lparr>bc_c := snd (lru_Get lru (bc_c ?bc) r)\<rparr>"
    using g by (auto simp: getBlock_start_def Let_def go_simps split: prod.splits option.splits)
  then have bc': "lru_Peek lru (bc_c bc') = lru_Peek lru (bc_c ?bc)" "bc_last bc' = bc_last ?bc"
    using get_peek[OF s(3)] by auto
  have run: "gb_lookup lru r pc u = Ret (gb_resume r pc res, upd_cache ?w bc' ?h u)"
    using g by (simp add: gb_lookup_def Let_def)
  have "sel_cache w (upd_cache ?w bc' ?h u) = (if w = ?w then bc' else sel_cache w u)" for w
    by (cases w; cases ?w) simp_all
  then have same: "same_cache lru u (upd_cache ?w bc' ?h u)" using bc' by (simp add: same_cache_def)
  have "uc_ok lru linv (upd_cache ?w bc' ?h u)"
    using gb_lookup_ok[OF assms, of r] run by auto
  then show ?thesis
    using run same c by (cases "spec_get (uc_view lru ?w u r)") (auto simp: uc_view_def)
qed

lemma gb_lookup_missed:
  assumes "uc_ok lru linv u" "pc \<in> gb_lookups" "missed (uc_view lru (gb_cache pc) u r)"
  shows "\<exists>u'. gb_lookup lru r pc u = Ret (gb_next r pc None (view_error (uc_view lru (gb_cache pc) u r)), u') \<and>
    uc_ok lru linv u' \<and> same_cache lru u u'"
  using gb_lookup_same[OF assms(1,2), of r] spec_get_missed[OF assms(3)] by auto

text \<open>The first two lookups, up to the promise.\<close>

lemma gb_run_missed:
  assumes "uc_ok lru linv u" "missed (uc_view lru CatchupCache u r)" "missed (uc_view lru ArchCache u r)"
  shows "\<exists>u1. uc_ok lru linv u1 \<and> same_cache lru u u1 \<and> gb_run 9 lru r GB_Catchup1 u = gb_run 7 lru r GB_Promise u1"
proof -
  have L: "GB_Catchup1 \<in> gb_lookups" "GB_Arch1 \<in> gb_lookups" by (simp_all add: gb_lookups_def)
  obtain u1 where 1: "gb_lookup lru r GB_Catchup1 u = Ret (GB_Arch1, u1)" "uc_ok lru linv u1" "same_cache lru u u1"
    using gb_lookup_missed[OF assms(1) L(1), of r] assms(2) by auto
  obtain u2 where 2: "gb_lookup lru r GB_Arch1 u1 = Ret (GB_Promise, u2)" "uc_ok lru linv u2" "same_cache lru u1 u2"
    using gb_lookup_missed[OF 1(2) L(2), of r] assms(3) same_cache_view[OF 1(3)] by auto
  have "gb_run 9 lru r GB_Catchup1 u = gb_run 8 lru r GB_Arch1 u1" "gb_run 8 lru r GB_Arch1 u1 = gb_run 7 lru r GB_Promise u2"
    using gb_run_step[of 9 lru r GB_Catchup1] gb_run_step[of 8 lru r GB_Arch1] 1(1) 2(1) by simp_all
  then show ?thesis using 2(2) same_cache_trans[OF 1(3) 2(3)] by auto
qed

text \<open>The promise keeps the round in the cache that it chose.\<close>

lemma PromiseBlock_route:
  assumes "uc_ok lru linv u" "PromiseBlock lru u r = Ret (a, u')"
  shows "getCacheWithPeek lru u' r = getCacheWithPeek lru u r"
proof -
  let ?w = "getCacheWithPeek lru u r"
  let ?bc = "sel_cache ?w u"
  have inv: "linv (bc_c ?bc)" using assms(1) uc_ok_sel[of lru linv u ?w] by (simp add: cache_ok_def)
  obtain bc' h' where p: "promiseBlock lru ?bc r (uc_store u) = Ret (a, bc', h')"
    and u': "u' = (upd_cache ?w bc' h' u)\<lparr>uc_loads := uc_loads u @ [r]\<rparr>"
    using assms(2) by (auto simp: PromiseBlock_def Let_def go_simps)
  have "lru_Peek lru (bc_c bc') r = Some a" "bc_last bc' = bc_last ?bc"
    using p add_hit_state[OF inv] add_new[OF inv]
    by (cases "lru_Peek lru (bc_c ?bc) r"; auto simp: promiseBlock_eq[OF inv] Let_def go_simps)+
  then show ?thesis
    unfolding u' by (cases ?w) (auto simp: getCacheWithPeek_def IsBlockPromised_def split: if_splits)
qed

lemma gb_lookup_awaits:
  assumes "uc_ok lru linv u" "pc \<in> gb_lookups" "gb_cache pc = getCacheWithPeek lru u r"
    and "uc_view lru (gb_cache pc) u r = Some (None, None)" "\<not> cached lru r u"
  shows "\<exists>a ch u'. gb_lookup lru r pc u = Ret (GB_Waiting pc a ch, u') \<and> awaits lru r a ch u'"
proof -
  obtain a ch u' where l: "gb_lookup lru r pc u = Ret (GB_Waiting pc a ch, u')" "same_cache lru u u'"
    "lru_Peek lru (bc_c (sel_cache (gb_cache pc) u)) r = Some a" "be_WaitFor (st_entries (uc_store u) ! a) = Some ch"
    using gb_lookup_same[OF assms(1,2), of r] assms(4) by auto
  then have "held lru r a u'" using assms(3) same_cache_route[OF l(2), of r] by (simp add: held_def same_cache_def)
  moreover have "\<not> cached lru r u'" using assms(5) same_cache_view[OF l(2)] by (simp add: cached_def)
  ultimately show ?thesis using l by (auto simp: awaits_def same_cache_def)
qed

text \<open>A lookup that finds the round ends the running part of the call.\<close>

lemma gb_run_found:
  assumes "uc_ok lru linv u" "pc \<in> gb_lookups" "\<not> missed (uc_view lru (gb_cache pc) u r)" "0 < n"
  shows "\<exists>pc' u'. gb_run n lru r pc u = Ret (pc', u') \<and> gb_idle pc' \<and> same_cache lru u u' \<and>
    (\<forall>b. uc_view lru (gb_cache pc) u r = Some (Some b, None) \<longrightarrow> pc' = GB_Done (Some b) None)"
proof -
  let ?v = "uc_view lru (gb_cache pc) u r"
  obtain pc' u' where g: "gb_lookup lru r pc u = Ret (pc', u')" "same_cache lru u u'"
    and c: "case spec_get ?v of Some (b, k, e) \<Rightarrow> pc' = gb_next r pc b e
      | None \<Rightarrow> \<exists>a ch. pc' = GB_Waiting pc a ch \<and> lru_Peek lru (bc_c (sel_cache (gb_cache pc) u)) r = Some a \<and>
          be_WaitFor (st_entries (uc_store u) ! a) = Some ch"
    using gb_lookup_same[OF assms(1,2), of r] by blast
  have next_done: "gb_next r pc (Some b) None = GB_Done (Some b) None" for b
    using assms(2) by (cases rule: gb_lookups_cases) simp_all
  have "gb_idle pc' \<and> (\<forall>b. ?v = Some (Some b, None) \<longrightarrow> pc' = GB_Done (Some b) None)"
    using c assms(3) next_done by (cases ?v rule: spec_get.cases) (auto simp: missed_def gb_idle_def)
  moreover have "gb_run n lru r pc u = gb_run (n - 1) lru r pc' u'"
    using g(1) gb_lookup_step[OF assms(2), of lru r u] by (intro gb_run_step[OF assms(4)]) simp
  ultimately show ?thesis using g(2) by (auto simp: gb_run_idle)
qed

text \<open>After the promise nothing else is loaded.\<close>

lemma gb_run_second:
  "uc_ok lru linv u \<Longrightarrow> pc \<in> {GB_Catchup2, GB_Arch2} \<or> gb_idle pc \<Longrightarrow> gb_run n lru r pc u = Ret (pc', u') \<Longrightarrow>
     same_cache lru u u'"
proof (induction n arbitrary: pc u)
  case 0
  then show ?case by (simp add: same_cache_def)
next
  case (Suc n)
  show ?case
  proof (cases "gb_idle pc")
    case True
    then show ?thesis using Suc.prems(3) by (simp add: gb_run_idle same_cache_def del: gb_run.simps)
  next
    case False
    then have pc: "pc \<in> gb_lookups" "pc \<in> {GB_Catchup2, GB_Arch2}" using Suc.prems(2) by (auto simp: gb_lookups_def)
    obtain pc1 u1 where g: "gb_lookup lru r pc u = Ret (pc1, u1)" "uc_ok lru linv u1" "same_cache lru u u1"
      and c: "case spec_get (uc_view lru (gb_cache pc) u r) of Some (b, k, e) \<Rightarrow> pc1 = gb_next r pc b e
        | None \<Rightarrow> \<exists>a ch. pc1 = GB_Waiting pc a ch \<and> lru_Peek lru (bc_c (sel_cache (gb_cache pc) u)) r = Some a \<and>
            be_WaitFor (st_entries (uc_store u) ! a) = Some ch"
      using gb_lookup_same[OF Suc.prems(1) pc(1), of r] by blast
    have "pc1 \<in> {GB_Catchup2, GB_Arch2} \<or> gb_idle pc1"
      using c pc(2) by (cases "spec_get (uc_view lru (gb_cache pc) u r)") (auto simp: gb_idle_def split: if_splits)
    moreover have "gb_run n lru r pc1 u1 = Ret (pc', u')"
      using Suc.prems(3) g(1) gb_lookup_step[OF pc(1), of lru r u] by simp
    ultimately show ?thesis using Suc.IH[OF g(2)] same_cache_trans[OF g(3)] by blast
  qed
qed

text \<open>A whole call: whether it starts a load, and what it returns at once.\<close>

lemma gb_run_outcome:
  assumes "uc_ok lru linv u"
  shows "\<exists>pc u'. gb_run 9 lru r GB_Catchup1 u = Ret (pc, u') \<and> gb_idle pc \<and> uc_ok lru linv u' \<and> call_ok (uc_store u') (r, pc) \<and>
    uc_loads u' = uc_loads u @
      (if missed (uc_view lru CatchupCache u r) \<and> missed (uc_view lru ArchCache u r) then [r] else []) \<and>
    (\<forall>b. uc_view lru CatchupCache u r = Some (Some b, None) \<or>
         missed (uc_view lru CatchupCache u r) \<and> uc_view lru ArchCache u r = Some (Some b, None) \<longrightarrow> pc = GB_Done (Some b) None)"
proof -
  have L: "GB_Catchup1 \<in> gb_lookups" "GB_Arch1 \<in> gb_lookups" by (simp_all add: gb_lookups_def)
  obtain pc u' where run: "gb_run 9 lru r GB_Catchup1 u = Ret (pc, u')" "gb_idle pc" "uc_ok lru linv u'" "call_ok (uc_store u') (r, pc)"
    using gb_run_ends[OF assms, of r GB_Catchup1 9] by auto
  have not_block: "\<not> missed (Some (Some b, None))" for b by (simp add: missed_def)
  consider (catchup) "\<not> missed (uc_view lru CatchupCache u r)"
    | (arch) "missed (uc_view lru CatchupCache u r)" "\<not> missed (uc_view lru ArchCache u r)"
    | (miss) "missed (uc_view lru CatchupCache u r)" "missed (uc_view lru ArchCache u r)" by blast
  then show ?thesis
  proof cases
    case catchup
    then obtain pc1 u1 where "gb_run 9 lru r GB_Catchup1 u = Ret (pc1, u1)" "same_cache lru u u1"
      "\<forall>b. uc_view lru CatchupCache u r = Some (Some b, None) \<longrightarrow> pc1 = GB_Done (Some b) None"
      using gb_run_found[OF assms L(1), of r 9] by auto
    then show ?thesis using run catchup by (auto simp: same_cache_def)
  next
    case arch
    obtain u1 where 1: "gb_lookup lru r GB_Catchup1 u = Ret (GB_Arch1, u1)" "uc_ok lru linv u1" "same_cache lru u u1"
      using gb_lookup_missed[OF assms L(1), of r] arch(1) by auto
    have "gb_run 9 lru r GB_Catchup1 u = gb_run 8 lru r GB_Arch1 u1" using gb_run_step[of 9 lru r GB_Catchup1] 1(1) by simp
    then obtain pc2 u2 where "gb_run 9 lru r GB_Catchup1 u = Ret (pc2, u2)" "same_cache lru u1 u2"
      "\<forall>b. uc_view lru ArchCache u r = Some (Some b, None) \<longrightarrow> pc2 = GB_Done (Some b) None"
      using gb_run_found[OF 1(2) L(2), of r 8] same_cache_view[OF 1(3)] arch by auto
    then show ?thesis using run arch not_block 1(3) by (auto simp: same_cache_def)
  next
    case miss
    obtain u1 where 1: "uc_ok lru linv u1" "same_cache lru u u1" "gb_run 9 lru r GB_Catchup1 u = gb_run 7 lru r GB_Promise u1"
      using gb_run_missed[OF assms miss] by blast
    obtain a u2 where 2: "PromiseBlock lru u1 r = Ret (a, u2)" "uc_ok lru linv u2" "uc_loads u2 = uc_loads u1 @ [r]"
      using PromiseBlock_ok[OF 1(1), of r] by auto
    have "gb_run 6 lru r GB_Catchup2 u2 = Ret (pc, u')" using run(1) 1(3) 2(1) gb_run_step[of 7 lru r GB_Promise u1] by simp
    then have "same_cache lru u2 u'" using gb_run_second[OF 2(2)] by blast
    then show ?thesis using run miss 1(2) 2(3) not_block by (auto simp: same_cache_def)
  qed
qed

text \<open>A round that neither cache knows: the call waits for the entry to which the load will deliver.\<close>

lemma gb_run_fresh:
  assumes "uc_ok lru linv u" "\<forall>w. uc_view lru w u r = None"
  shows "\<exists>pc a ch u'. gb_run 9 lru r GB_Catchup1 u = Ret (GB_Waiting pc a ch, u') \<and> pc \<in> {GB_Catchup2, GB_Arch2} \<and>
    awaits lru r a ch u'"
proof -
  have L: "GB_Catchup2 \<in> gb_lookups" "GB_Arch2 \<in> gb_lookups" by (simp_all add: gb_lookups_def)
  have miss: "missed (uc_view lru w u r)" for w using assms(2) by (simp add: missed_def)
  obtain u1 where 1: "uc_ok lru linv u1" "same_cache lru u u1" "gb_run 9 lru r GB_Catchup1 u = gb_run 7 lru r GB_Promise u1"
    using gb_run_missed[OF assms(1) miss miss] by blast
  let ?w = "getCacheWithPeek lru u1 r"
  obtain a0 u2 where p: "PromiseBlock lru u1 r = Ret (a0, u2)" "uc_ok lru linv u2"
    and v: "uc_view lru ?w u2 r = Some (None, None)" "uc_view lru (other_cache ?w) u2 r = None"
    using PromiseBlock_ok[OF 1(1), of r] same_cache_view[OF 1(2)] assms(2) by (auto simp: Let_def)
  have run: "gb_run 9 lru r GB_Catchup1 u = gb_run 6 lru r GB_Catchup2 u2"
    using 1(3) p(1) gb_run_step[of 7 lru r GB_Promise u1] by simp
  have w: "getCacheWithPeek lru u2 r = ?w" by (rule PromiseBlock_route[OF 1(1) p(1)])
  have "uc_view lru w u2 r \<noteq> Some (Some b, e)" for w b e using v by (cases "w = ?w"; cases w; cases ?w) auto
  then have nb: "\<not> cached lru r u2" by (simp add: cached_def)
  show ?thesis
  proof (cases ?w)
    case CatchupCache
    then obtain a ch u' where g: "gb_lookup lru r GB_Catchup2 u2 = Ret (GB_Waiting GB_Catchup2 a ch, u')" "awaits lru r a ch u'"
      using gb_lookup_awaits[OF p(2) L(1) _ _ nb] w v(1) by auto
    then have "gb_run 9 lru r GB_Catchup1 u = Ret (GB_Waiting GB_Catchup2 a ch, u')"
      using run gb_run_step[of 6 lru r GB_Catchup2 u2] by (simp add: gb_run_idle gb_idle_def)
    then show ?thesis using g(2) by blast
  next
    case ArchCache
    then have "missed (uc_view lru CatchupCache u2 r)" "view_error (uc_view lru CatchupCache u2 r) = None"
      using v(2) by (simp_all add: missed_def view_error_def)
    then obtain u3 where 3: "gb_lookup lru r GB_Catchup2 u2 = Ret (GB_Arch2, u3)" "uc_ok lru linv u3" "same_cache lru u2 u3"
      using gb_lookup_missed[OF p(2) L(1), of r] by auto
    then obtain a ch u' where g: "gb_lookup lru r GB_Arch2 u3 = Ret (GB_Waiting GB_Arch2 a ch, u')" "awaits lru r a ch u'"
      using gb_lookup_awaits[OF 3(2) L(2), of r] w v(1) nb ArchCache same_cache_view[OF 3(3)] same_cache_route[OF 3(3), of r]
      by (auto simp: cached_def)
    then have "gb_run 9 lru r GB_Catchup1 u = Ret (GB_Waiting GB_Arch2 a ch, u')"
      using run 3(1) gb_run_step[of 6 lru r GB_Catchup2 u2] gb_run_step[of 5 lru r GB_Arch2 u3] by (simp add: gb_run_idle gb_idle_def)
    then show ?thesis using g(2) by blast
  qed
qed

end

section \<open>GetBlock of the cluster\<close>


lemma demo_views: "uc_view lru_list_ops w (New lru_list_ops) r = None"
  by (cases w) (simp_all add: uc_view_def cache_view_def cache_eval)


section \<open>The load answers the reader\<close>

text \<open>The reader's channel is closed and the entry it will read has a block or an error.\<close>

definition answered :: "nat \<Rightarrow> nat \<Rightarrow> 'l UnifiedBlockCache \<Rightarrow> bool" where
  "answered a ch u \<longleftrightarrow> a < length (st_entries (uc_store u)) \<and> ch \<in> set (st_closed (uc_store u)) \<and>
     (be_B (st_entries (uc_store u) ! a) \<noteq> None \<or> be_Error (st_entries (uc_store u) ! a) \<noteq> None)"

context lru_ops
begin

lemma addBlock_entries:
  assumes "store_ok h" "cache_ok lru linv bc h" "addBlock lru bc b h = Ret (bc', h')" "a < length (st_entries h)"
  shows "st_entries h' ! a \<in> {st_entries h ! a, (merge_block b (st_entries h ! a))\<lparr>be_WaitFor := None\<rparr>}"
proof -
  have inv: "linv (bc_c bc)" using assms(2) by (simp add: cache_ok_def)
  let ?h1 = "snd (new_entry (entry_of_block b) h)"
  have e1: "st_entries ?h1 = st_entries h @ [entry_of_block b]" by (simp add: new_entry_def)
  have ok1: "store_ok ?h1"
    using assms(1) by (rule store_ok_new_entry) (simp_all add: entry_ok_def entry_of_block_def)
  show ?thesis
  proof (cases "lru_Peek lru (bc_c bc) (bw_Round b)")
    case None
    then show ?thesis using assms(3,4) e1 by (simp add: addBlock_eq[OF inv] Let_def nth_append)
  next
    case (Some fa)
    then have fa: "fa < length (st_entries h)" "be_Round (st_entries h ! fa) = bw_Round b"
      using assms(2) by (auto simp: cache_ok_def)
    have "deliver_found fa b ?h1 = Ret h'"
      using assms(3) Some by (auto simp: addBlock_eq[OF inv] Let_def go_simps)
    then show ?thesis
      using deliver_found_ok[OF ok1, of fa b] fa assms(4) e1 by (cases "a = fa") (auto simp: nth_append)
  qed
qed

text \<open>Any delivery for the round answers a reader that waits for it, and takes no answer back.\<close>

lemma AddBlock_answers:
  assumes "uc_ok lru linv u" "AddBlock lru u b = Ret u'" "bw_Round b = r" "awaits lru r a ch u \<or> answered a ch u"
  shows "answered a ch u'"
proof -
  let ?w = "getCacheWithPeek lru u r"
  have s: "store_ok (uc_store u)" "cache_ok lru linv (sel_cache ?w u) (uc_store u)"
    using assms(1) uc_ok_sel[of lru linv u ?w] by simp_all
  obtain bc' h' where ab: "addBlock lru (sel_cache ?w u) b (uc_store u) = Ret (bc', h')" and u': "u' = upd_cache ?w bc' h' u"
    using assms(2,3) by (auto simp: AddBlock_def Let_def go_simps)
  note a = AddBlock_ok[OF assms(1), of b]
  have le: "store_le (uc_store u) (uc_store u')" using a assms(2) by auto
  from assms(4) show ?thesis
  proof
    assume w: "awaits lru r a ch u"
    then have peek: "lru_Peek lru (bc_c (sel_cache ?w u)) (bw_Round b) = Some a" "be_WaitFor (st_entries (uc_store u) ! a) = Some ch"
      using assms(3) by (simp_all add: awaits_def held_def)
    then have "ch \<in> set (st_closed (uc_store u'))" using a assms(2,3) by (auto simp: Let_def)
    moreover have "st_entries (uc_store u') ! a = (merge_block b (st_entries (uc_store u) ! a))\<lparr>be_WaitFor := None\<rparr>"
      using addBlock_hit[OF s peek(1) ab] by (simp add: u')
    moreover have "a < length (st_entries (uc_store u))" using peek(1) s(2) by (simp add: cache_ok_def)
    ultimately show ?thesis using le merge_block_settled[of b] by (simp add: answered_def store_le_def)
  next
    assume o: "answered a ch u"
    then have "be_B (st_entries h' ! a) \<noteq> None \<or> be_Error (st_entries h' ! a) \<noteq> None"
      using addBlock_entries[OF s ab, of a] merge_block_settled[of b "st_entries (uc_store u) ! a"] by (auto simp: answered_def)
    then show ?thesis using o le by (auto simp: answered_def store_le_def u')
  qed
qed

lemma SinkError_answers:
  assumes "cl_ok lru linv gs" "cl_ucache gs = Some u" "awaits lru r a ch u \<or> answered a ch u" "SinkError lru r err gs = Ret gs'"
  shows "\<exists>u'. cl_ucache gs' = Some u' \<and> answered a ch u'"
proof -
  have "uc_ok lru linv u" using assms(1,2) by (simp add: cl_ok_def)
  then show ?thesis using assms(2-4) AddBlock_answers by (auto simp: SinkError_def go_simps)
qed

lemma BlockSink_answers:
  assumes "cl_ok lru linv gs" "cl_ucache gs = Some u" "awaits lru r a ch u \<or> answered a ch u"
    and "MakeBlockWrap we now (nc_Id (nd_cfg (cl_nodes gs ! i))) block raw = Ret (Inr bw)"
    and "bh_Round (blk_BlockHeader (ebc_Block block)) = r" "BlockSink lru we now i block raw gs = Ret (sunk, gs')"
  shows "\<exists>u'. cl_ucache gs' = Some u' \<and> answered a ch u'"
proof -
  have u: "uc_ok lru linv u" using assms(1,2) by (simp add: cl_ok_def)
  obtain won gs1 where w: "SetLatestRound now (bh_Round (blk_BlockHeader (ebc_Block block))) i gs = (won, gs1)" by (metis surj_pair)
  then have uc: "cl_ucache gs1 = Some u" using assms(2) by (auto simp: SetLatestRound_def split: if_splits)
  have r: "bw_Round bw = r" using MakeBlockWrap_Inr[OF assms(4)] assms(5) by simp
  have "answered a ch u" if "cached lru r u" using that assms(3) by (auto simp: awaits_def)
  moreover have "answered a ch u'" if "AddBlock lru u bw = Ret u'" for u' using AddBlock_answers[OF u that r assms(3)] .
  moreover obtain u1 where "AddBlock lru u bw = Ret u1" using AddBlock_ok[OF u, of bw] by blast
  ultimately show ?thesis
    using BlockSink_eq[OF w uc, of lru we raw] assms(4-6) uc IsBlockCached_cached[OF u, of r]
    by (auto simp: Let_def split: if_splits)
qed

end

text \<open>An environment in which no other goroutine changes the cache while a fetch waits.\<close>

locale quiet_env = node_env env for env :: "('w, 'l) env" +
  assumes BlockRaw_quiet: "cl_ucache (sy_cl (snd (en_BlockRaw env i rnd s))) = cl_ucache (sy_cl s)"
    and pause_quiet: "cl_ucache (sy_cl (en_pause env d s)) = cl_ucache (sy_cl s)"

sublocale quiet_env < quiet: retried "\<lambda>sx. cl_ucache (sy_cl (fst sx)) = c" "\<lambda>(s, x). en_ctx_err env (sy_w s)" "fetch_try env i rnd"
    "\<lambda>d (s, x). (en_pause env d s, x)" for c i rnd
proof
  fix sx :: "('w, 'l) sys \<times> (EncodedBlockCert \<times> byte list)" and d
  obtain s block raw where sx: "sx = (s, (block, raw))" by (cases sx) auto
  assume I: "cl_ucache (sy_cl (fst sx)) = c"
  then show "cl_ucache (sy_cl (fst ((\<lambda>d (s, x). (en_pause env d s, x)) d sx))) = c" by (simp add: sx pause_quiet)
  show "cl_ucache (sy_cl (fst (snd (fetch_try env i rnd d sx)))) = c"
    using I BlockRaw_quiet[of i rnd s]
    by (auto simp: sx fetch_try_def Let_def with_cl_def updateRTT_def upd_node_def split: prod.splits sum.splits option.splits)
qed

context quiet_env
begin

lemma fetch_answers:
  assumes "lru_ops (en_lru env) linv cap" "cl_ok (en_lru env) linv (sy_cl s)" "i < length (cl_nodes (sy_cl s))" "honest env rnd"
    and "cl_ucache (sy_cl s) = Some u" "awaits (en_lru env) rnd a ch u \<or> answered a ch u"
    and "fetchBlockRaw env i rnd s = Some (Ret (ok, s'))"
  shows "\<exists>u'. cl_ucache (sy_cl s') = Some u' \<and> answered a ch u'"
proof -
  let ?fetch = "fetch_try env i rnd" and ?x = "(zero_EncodedBlockCert, [])"
  obtain err s1 block raw where nb: "node_backoff env ?fetch 10 s ?x = Some (err, (s1, (block, raw)))"
    and s1: "csteps (en_lru env) (sy_cl s) (sy_cl s1)"
    and ok: "err = None \<longrightarrow> (\<exists>s2 s3 b0. en_BlockRaw env i rnd s2 = (Inr raw, s3) \<and> en_Decode env raw b0 = (None, block))"
    using fetch_at[OF assms(3)] by blast
  have k1: "cl_ok (en_lru env) linv (sy_cl s1)" by (rule keep_ok(1)[OF assms(1,2) s1])
  have u1: "cl_ucache (sy_cl s1) = Some u"
    using quiet.backoff_n_inv[where s = "(s, ?x)" and c = "Some u" and i = i and rnd = rnd and timeout = "10 * second"
        and maxwait = "10 * second" and n = "attempts 10" and wait = "100 * millisecond"]
      nb node_backoff_n[OF disjI2[OF refl], of env ?fetch s ?x] assms(5) by simp
  show ?thesis
  proof (cases err)
    case (Some e)
    then show ?thesis
      using assms(7) nb lru_ops.SinkError_answers[OF assms(1) k1 u1 assms(6)] by (auto simp: fetchBlockRaw_def BlockSinkError_def go_simps)
  next
    case None
    then have h: "bh_Round (blk_BlockHeader (ebc_Block block)) = rnd"
      "\<exists>bw. MakeBlockWrap (en_we env) now src block raw = Ret (Inr bw)" for now src
      using assms(4) ok unfolding honest_def by blast+
    then show ?thesis
      using assms(7) nb None lru_ops.BlockSink_answers[OF assms(1) k1 u1 assms(6)]
      by (fastforce simp: fetchBlockRaw_def BlockSinkError_def go_simps)
  qed
qed

lemma try_nodes_answers:
  assumes "lru_ops (en_lru env) linv cap" "honest env r"
  shows "cl_ok (en_lru env) linv (sy_cl s) \<Longrightarrow> set ns \<subseteq> {..<length (cl_nodes (sy_cl s))} \<Longrightarrow> cl_ucache (sy_cl s) = Some u \<Longrightarrow>
    ns \<noteq> [] \<and> awaits (en_lru env) r a ch u \<or> answered a ch u \<Longrightarrow> try_nodes env r ns s = Some (Ret (ok, s')) \<Longrightarrow>
    \<exists>u'. cl_ucache (sy_cl s') = Some u' \<and> answered a ch u'"
proof (induction ns arbitrary: s u)
  case Nil
  then show ?case by (auto simp: run_ret_def)
next
  case (Cons n ns)
  have v: "n < length (cl_nodes (sy_cl s))" using Cons.prems(2) by simp
  obtain ok1 s1 where f: "fetchBlockRaw env n r s = Some (Ret (ok1, s1))"
    and rest: "(if ok1 then run_ret (True, s1) else try_nodes env r ns s1) = Some (Ret (ok, s'))"
    using Cons.prems(5) by (cases "fetchBlockRaw env n r s"; cases "the (fetchBlockRaw env n r s)") auto
  have st: "csteps (en_lru env) (sy_cl s) (sy_cl s1)"
    using makesD(2)[OF fetchBlockRaw_at[OF v assms(1) Cons.prems(1)] f] by blast
  obtain u1 where u1: "cl_ucache (sy_cl s1) = Some u1" "answered a ch u1"
    using fetch_answers[OF assms(1) Cons.prems(1) v assms(2) Cons.prems(3) _ f] Cons.prems(4) by blast
  have "set ns \<subseteq> {..<length (cl_nodes (sy_cl s1))}" using Cons.prems(2) csteps_length[OF st] by simp
  from Cons.IH[OF keep_ok(1)[OF assms(1) Cons.prems(1) st] this u1(1)] show ?case
    using rest u1 by (auto simp: run_ret_def split: if_splits)
qed

lemma LoadBlockSync_answers:
  assumes "lru_ops (en_lru env) linv cap" "honest env r" "cl_ok (en_lru env) linv (sy_cl s)" "cl_ucache (sy_cl s) = Some u"
    and "awaits (en_lru env) r a ch u" "r \<le> cl_latestRound (sy_cl s)"
    and "cl_archNodes (sy_cl s) \<noteq> [] \<or> r > cl_latestRound (sy_cl s) - CatchupSize + 4 \<and> cl_catchupNodes (sy_cl s) \<noteq> []"
    and "LoadBlockSync env r s = Some (Ret (ok, s'))"
  shows "\<exists>u'. cl_ucache (sy_cl s') = Some u' \<and> answered a ch u'"
proof -
  let ?gs = "sy_cl s"
  have sub: "set (cl_catchupNodes gs) \<subseteq> {..<length (cl_nodes gs)}" "set (cl_archNodes gs) \<subseteq> {..<length (cl_nodes gs)}"
    if "cl_ok (en_lru env) linv gs" for gs using that by (simp_all add: cl_ok_def)
  note answers = try_nodes_answers[OF assms(1,2)]
  show ?thesis
  proof (cases "r > cl_latestRound ?gs - CatchupSize + 4 \<and> cl_catchupNodes ?gs \<noteq> []")
    case False
    then have "LoadBlockSync env r s = try_nodes env r (cl_archNodes ?gs) s" "cl_archNodes ?gs \<noteq> []"
      using assms(7) assms(6)[THEN leD] by (auto simp: LoadBlockSync_def Let_def run_ret_def)
    then show ?thesis using answers[OF assms(3) sub(2)[OF assms(3)] assms(4), of a ch ok s'] assms(5,8) by simp
  next
    case True
    have "LoadBlockSync env r s = run_bind (try_nodes env r (cl_catchupNodes ?gs) s) (\<lambda>(ok, s1).
        if ok then run_ret (True, s1) else try_nodes env r (cl_archNodes (sy_cl s1)) s1)"
      using True assms(6)[THEN leD] by (simp add: LoadBlockSync_def Let_def)
    then obtain ok1 s1 where f: "try_nodes env r (cl_catchupNodes ?gs) s = Some (Ret (ok1, s1))"
      and rest: "(if ok1 then run_ret (True, s1) else try_nodes env r (cl_archNodes (sy_cl s1)) s1) = Some (Ret (ok, s'))"
      using assms(8)
      by (cases "try_nodes env r (cl_catchupNodes ?gs) s"; cases "the (try_nodes env r (cl_catchupNodes ?gs) s)") auto
    obtain u1 where u1: "cl_ucache (sy_cl s1) = Some u1" "answered a ch u1"
      using answers[OF assms(3) sub(1)[OF assms(3)] assms(4) _ f] True assms(5) by blast
    have k1: "cl_ok (en_lru env) linv (sy_cl s1)"
      using makesD(2)[OF try_nodes_makes[OF assms(1,3) sub(1)[OF assms(3)]] f] keep_ok(1)[OF assms(1,3)] by blast
    then show ?thesis using answers[OF k1 sub(2)[OF k1] u1(1)] u1 rest by (auto simp: run_ret_def split: if_splits)
  qed
qed

end

interpretation quietly: quiet_env "table_env t lru" for t and lru :: "'l lru"
  by unfold_locales (simp_all add: table_env_def tick_def)



end
