(* ===== verification/Convert_Properties.thy ===== *)
theory Convert_Properties
  imports Convert_Block
begin

text \<open>
  The properties of the conversion to the indexer's format, with their witnesses on an
  application call that has one inner payment, and on a block that holds two of them.
\<close>

section \<open>Data for the witnesses\<close>

definition demo_header :: TxnHeader where
  "demo_header = \<lparr>th_Sender = [1], th_Fee = 1000, th_FirstValid = 1, th_LastValid = 2, th_Note = [],
     th_GenesisID = '''', th_GenesisHash = [], th_Group = [], th_Lease = [], th_RekeyTo = []\<rparr>"

definition demo_txn :: "string \<Rightarrow> Txn" where
  "demo_txn ty = \<lparr>txn_Type = ty, txn_Header = demo_header,
     txn_Keyreg = \<lparr>kr_VotePK = [], kr_SelectionPK = [], kr_StateProofPK = [], kr_VoteFirst = 0, kr_VoteLast = 0,
                   kr_VoteKeyDilution = 0, kr_Nonparticipation = False\<rparr>,
     txn_Payment = \<lparr>pf_Receiver = [2], pf_Amount = 5, pf_CloseRemainderTo = []\<rparr>,
     txn_AssetConfig = \<lparr>ac_ConfigAsset = 0,
        ac_AssetParams = \<lparr>ba_Total = 0, ba_Decimals = 0, ba_DefaultFrozen = False, ba_UnitName = '''', ba_AssetName = '''',
          ba_URL = '''', ba_MetadataHash = [], ba_Manager = [], ba_Reserve = [], ba_Freeze = [], ba_Clawback = []\<rparr>\<rparr>,
     txn_AssetTransfer = \<lparr>at_XferAsset = 0, at_AssetAmount = 0, at_AssetSender = [], at_AssetReceiver = [],
        at_AssetCloseTo = []\<rparr>,
     txn_AssetFreeze = \<lparr>af_FreezeAccount = [], af_FreezeAsset = 0, af_AssetFrozen = False\<rparr>,
     txn_ApplicationCall = \<lparr>ap_ApplicationID = 9, ap_OnCompletion = NoOpOC, ap_ApplicationArgs = [], ap_Accounts = [[3], [4]],
        ap_ForeignApps = [], ap_ForeignAssets = [],
        ap_LocalStateSchema = \<lparr>ss_NumUint = 0, ss_NumByteSlice = 0\<rparr>,
        ap_GlobalStateSchema = \<lparr>ss_NumUint = 0, ss_NumByteSlice = 0\<rparr>,
        ap_ApprovalProgram = [], ap_ClearStateProgram = [], ap_ExtraProgramPages = 0\<rparr>\<rparr>"

definition demo_msig :: MultisigSig where
  "demo_msig = \<lparr>ms_Version = 0, ms_Threshold = 0, ms_Subsigs = []\<rparr>"

definition demo_stx :: "string \<Rightarrow> SignedTxn" where
  "demo_stx ty = \<lparr>stx_Sig = [7], stx_Msig = demo_msig,
     stx_Lsig = \<lparr>ls_Logic = [], ls_Sig = [], ls_Msig = demo_msig, ls_Args = []\<rparr>, stx_Txn = demo_txn ty\<rparr>"

definition demo_pay :: SignedTxnWithAD where
  "demo_pay = SignedTxnWithAD (demo_stx PaymentTx) (ApplyData 0 0 0 0 0 (EvalDeltaAD [] [] [] []) 0 0)"

definition demo_vd :: "u64 \<Rightarrow> ValueDelta" where
  "demo_vd n = \<lparr>vd_Action = 2, vd_Bytes = '''', vd_Uint = n\<rparr>"

definition demo_app :: "basics_StateDelta \<Rightarrow> (u64 \<times> basics_StateDelta) list \<Rightarrow> SignedTxnWithAD" where
  "demo_app gd ld = SignedTxnWithAD (demo_stx ApplicationCallTx) (ApplyData 0 0 0 0 0 (EvalDeltaAD gd ld [] [demo_pay]) 0 0)"

definition demo_delta :: basics_StateDelta where
  "demo_delta = [(''b'', demo_vd 2), (''a'', demo_vd 1)]"

definition demo_call :: SignedTxnWithAD where
  "demo_call = demo_app demo_delta [(2, demo_delta), (0, [])]"

definition demo_row :: rowData where
  "demo_row = \<lparr>rd_Round = 5, rd_RoundTime = 100, rd_Intra = 3, rd_AssetID = 9, rd_AssetCloseAmount = 0\<rparr>"

definition demo_bh :: BlockHeader where
  "demo_bh = \<lparr>bh_Round = 5, bh_Branch = [], bh_Seed = [], bh_NativeSha512_256Commitment = [], bh_TimeStamp = 100,
     bh_GenesisID = ''g'', bh_GenesisHash = [9], bh_FeeSink = [], bh_RewardsPool = [], bh_RewardsLevel = 0, bh_RewardsRate = 0,
     bh_RewardsResidue = 0, bh_RewardsRecalculationRound = 0, bh_CurrentProtocol = ''p'', bh_NextProtocol = '''',
     bh_NextProtocolApprovals = 0, bh_NextProtocolVoteBefore = 0, bh_NextProtocolSwitchOn = 0, bh_UpgradePropose = '''',
     bh_UpgradeDelay = 0, bh_UpgradeApprove = False, bh_TxnCounter = 44\<rparr>"

definition demo_stib :: "bool \<Rightarrow> SignedTxnInBlock" where
  "demo_stib bad = \<lparr>sib_Txn = demo_call, sib_HasGenesisID = bad, sib_HasGenesisHash = False\<rparr>"

definition demo_blk :: "bool \<Rightarrow> bookkeeping_Block" where
  "demo_blk bad = \<lparr>blk_BlockHeader = demo_bh, blk_Payset = [demo_stib False, demo_stib bad]\<rparr>"

text \<open>A decoder that refuses the entries with \<open>HasGenesisID\<close>.\<close>

definition demo_ga :: go_algorand where
  "demo_ga = \<lparr>ga_AddrString = string_of, ga_AddrIsZero = (\<lambda>a. a = []), ga_MsigBlank = (\<lambda>m. ms_Subsigs m = []),
     ga_LsigBlank = (\<lambda>l. ls_Logic l = []),
     ga_DecodeSignedTxn = (\<lambda>h s. if sib_HasGenesisID s then Inl (new_error ''bad'')
        else Inr (sad_SignedTxn (sib_Txn s), sad_ApplyData (sib_Txn s))),
     ga_TxnID = (\<lambda>t. txn_Type t)\<rparr>"

definition demo_ce :: conv_env where
  "demo_ce = \<lparr>ce_ga = demo_ga, ce_IsPrint = (\<lambda>c. 32 \<le> c \<and> c < 127)\<rparr>"

lemma demo_preorder: "preorder demo_pay = [demo_pay]" "preorder (demo_app gd ld) = [demo_app gd ld, demo_pay]"
proof -
  show p: "preorder demo_pay = [demo_pay]" by (subst preorder.simps) (simp add: demo_pay_def)
  show "preorder (demo_app gd ld) = [demo_app gd ld, demo_pay]"
    by (subst preorder.simps) (simp add: demo_app_def p)
qed

lemma demo_call_ok: "stxn_ok demo_call"
  by (simp add: stxn_ok_def demo_preorder demo_call_def)
     (simp add: local_keys_ok_def demo_app_def demo_pay_def demo_stx_def demo_txn_def)

section \<open>One transaction\<close>

text \<open>
  C16. The conversion of a transaction tree is the reference \<open>conv_tx\<close>, which neither counts nor
  fails: it never returns an error, the running counter advances by the number of
  transactions in the tree, and it panics exactly when a key of some \<open>LocalDeltas\<close> in the tree
  is beyond the accounts of its transaction.
\<close>

theorem signedTxn_conversion:
  "signedTxnWithAdToTransaction ce t intra extra =
     (if list_all local_keys_ok (preorder t)
      then Ret (Inr (conv_tx ce t extra, intra + of_nat (length (preorder t))))
      else Panic IndexOutOfRange)"
  by (simp add: signedTxn_eq stxn_ok_def txn_count_preorder)

text \<open>
  C18. The order in which Go iterates over the maps of state deltas, at any depth, cannot be seen
  in the result of the conversion, a panic included.
\<close>

theorem conversion_map_order:
  assumes "same_stxn t t'"
  shows "signedTxnWithAdToTransaction ce t intra extra = signedTxnWithAdToTransaction ce t' intra extra"
  using same_stxn_ok[OF assms] same_stxn_conv_tx[OF assms] same_stxn_count[OF assms] by (simp add: signedTxn_eq)

theorem conversion_map_order_witness:
  "signedTxnWithAdToTransaction demo_ce (demo_app demo_delta [(2, demo_delta), (0, [])]) 0 demo_row =
   signedTxnWithAdToTransaction demo_ce (demo_app (rev demo_delta) [(0, []), (2, rev demo_delta)]) 0 demo_row"
proof (rule conversion_map_order)
  have m: "same_map demo_delta (rev demo_delta)" "same_map [] ([] :: basics_StateDelta)"
    by (auto simp: same_map_def demo_delta_def fun_eq_iff)
  then have l: "same_local [(2, demo_delta), (0, [])] [(0, []), (2, rev demo_delta)]"
    by (auto simp: same_local_def)
  have "same_stxn demo_pay demo_pay"
    unfolding demo_pay_def by (rule same) (auto simp: same_map_def same_local_def)
  then show "same_stxn (demo_app demo_delta [(2, demo_delta), (0, [])])
      (demo_app (rev demo_delta) [(0, []), (2, rev demo_delta)])"
    unfolding demo_app_def using m l by (intro same) auto
qed

text \<open>
  C19. A state delta is converted without loss: nil exactly for the empty map, otherwise one entry per key,
  in ascending byte order of the keys, and decoding the base64 fields gives the map back.
\<close>

theorem stateDelta_roundtrip:
  "case stateDeltaToStateDelta d of
     None \<Rightarrow> d = []
   | Some kvs \<Rightarrow> d \<noteq> [] \<and> map_of (map decode_kv kvs) = map_of d \<and>
       mset (map (fst \<circ> decode_kv) kvs) = mset (map fst d) \<and> sorted (map (fst \<circ> decode_kv) kvs)"
proof (cases "d = []")
  case False
  have "map (fst \<circ> decode_kv) (map (delta_entry d) (sort (map fst d))) = sort (map fst d)"
    by (simp add: o_def decode_delta_entry)
  with False map_of_delta_entries[of d] show ?thesis
    by (simp add: stateDeltaToStateDelta_def Let_def)
qed (simp add: stateDeltaToStateDelta_def)

text \<open>
  C20. The shape of the result: read in pre-order it has the types of the source tree, and every
  transaction in it carries the round, the round time and the offset of the root.
\<close>

theorem conversion_shape:
  assumes "signedTxnWithAdToTransaction ce t intra extra = Ret (Inr (tx, intra'))"
  shows "map tx_TxType (tx_preorder tx) = map (\<lambda>t'. txn_Type (sad_Txn t')) (preorder t) \<and>
    (\<forall>x \<in> set (tx_preorder tx). tx_ConfirmedRound x = Some (rd_Round extra) \<and>
       tx_RoundTime x = Some (word_of_int (rd_RoundTime extra)) \<and> tx_IntraRoundOffset x = Some (rd_Intra extra))"
proof -
  have tx: "tx = conv_tx ce t extra" using assms by (simp add: signedTxn_eq split: if_splits)
  have f: "tx_ConfirmedRound (transaction_fields ce t extra lsd) = Some (rd_Round extra)"
    "tx_RoundTime (transaction_fields ce t extra lsd) = Some (word_of_int (rd_RoundTime extra))"
    "tx_IntraRoundOffset (transaction_fields ce t extra lsd) = Some (rd_Intra extra)" for t extra lsd
    by (simp_all add: transaction_fields_def Let_def uint64Ptr_def)
  have "\<forall>x \<in> set (tx_preorder tx). (tx_ConfirmedRound x, tx_RoundTime x, tx_IntraRoundOffset x) =
      (Some (rd_Round extra), Some (word_of_int (rd_RoundTime extra)), Some (rd_Intra extra))"
    unfolding tx
    by (rule tx_preorder_const[where g = "\<lambda>e. (rd_Round e, rd_RoundTime e, rd_Intra e)"
          and c = "(rd_Round extra, rd_RoundTime extra, rd_Intra extra)"]) (auto simp: f)
  then show ?thesis by (simp add: tx tx_preorder_conv_tx)
qed

theorem conversion_shape_witness:
  "\<exists>tx intra'. signedTxnWithAdToTransaction demo_ce demo_call 3 demo_row = Ret (Inr (tx, intra')) \<and>
     map tx_TxType (tx_preorder tx) = [''appl'', ''pay''] \<and> intra' = 5"
proof -
  have r: "signedTxnWithAdToTransaction demo_ce demo_call 3 demo_row = Ret (Inr (conv_tx demo_ce demo_call demo_row, 5))"
    using demo_call_ok by (simp add: signedTxn_eq txn_count_preorder) (simp add: demo_call_def demo_preorder)
  then show ?thesis
    using conversion_shape[OF r]
    by (simp add: demo_call_def demo_preorder)
       (simp add: demo_app_def demo_pay_def demo_stx_def demo_txn_def tx_type_defs)
qed

text \<open>
  Exactly one payload: the result of the conversion has the payload of its type and no
  other, and none when the type is not one of the six.
\<close>

theorem conversion_payload:
  assumes "signedTxnWithAdToTransaction ce t intra extra = Ret (Inr (tx, intra'))"
  shows "(let f = tx_fields tx; ty = txn_Type (sad_Txn t) in
    (tx_PaymentTransaction f \<noteq> None \<longleftrightarrow> ty = PaymentTx) \<and>
    (tx_KeyregTransaction f \<noteq> None \<longleftrightarrow> ty = KeyRegistrationTx) \<and>
    (tx_AssetConfigTransaction f \<noteq> None \<longleftrightarrow> ty = AssetConfigTx) \<and>
    (tx_AssetTransferTransaction f \<noteq> None \<longleftrightarrow> ty = AssetTransferTx) \<and>
    (tx_AssetFreezeTransaction f \<noteq> None \<longleftrightarrow> ty = AssetFreezeTx) \<and>
    (tx_ApplicationTransaction f \<noteq> None \<longleftrightarrow> ty = ApplicationCallTx) \<and>
    (tx_CreatedApplicationIndex f \<noteq> None \<longleftrightarrow> ty = ApplicationCallTx \<and>
       ap_ApplicationID (txn_ApplicationCall (sad_Txn t)) = 0 \<and> rd_AssetID extra \<noteq> 0) \<and>
    (tx_CreatedAssetIndex f \<noteq> None \<longleftrightarrow> ty = AssetConfigTx \<and> ac_ConfigAsset (txn_AssetConfig (sad_Txn t)) = 0))"
proof -
  have tx: "tx = conv_tx ce t extra" using assms by (simp add: signedTxn_eq split: if_splits)
  show ?thesis
    by (simp add: tx conv_tx.simps[of ce t] transaction_fields_def Let_def uint64Ptr_def conv_application_def
        conv_asset_config_def word_gt_0)
qed

theorem conversion_payload_witness:
  "\<exists>tx intra'. signedTxnWithAdToTransaction demo_ce demo_call 3 demo_row = Ret (Inr (tx, intra')) \<and>
     tx_ApplicationTransaction (tx_fields tx) \<noteq> None \<and> tx_PaymentTransaction (tx_fields tx) = None"
proof -
  have r: "signedTxnWithAdToTransaction demo_ce demo_call 3 demo_row = Ret (Inr (conv_tx demo_ce demo_call demo_row, 5))"
    using demo_call_ok by (simp add: signedTxn_eq txn_count_preorder) (simp add: demo_call_def demo_preorder)
  then show ?thesis
    using conversion_payload[OF r]
    by (simp add: Let_def) (simp add: demo_call_def demo_app_def demo_stx_def demo_txn_def tx_type_defs)
qed

text \<open>
  C23. \<open>PrintableUTF8OrEmpty\<close> returns its input or the empty string; a string of printable
  ASCII characters is kept, one with a byte that does not start a valid rune is dropped, and
  applying it again changes nothing.
\<close>

theorem PrintableUTF8_spec:
  "PrintableUTF8OrEmpty P s \<in> {s, ''''} \<and>
   (PrintableUTF8OrEmpty P s = s \<longleftrightarrow> s = '''' \<or> (\<forall>c \<in> set (range_runes s). c \<noteq> RuneError \<and> P c)) \<and>
   (is_ascii s \<and> list_all (\<lambda>c. P (of_char c)) s \<longrightarrow> PrintableUTF8OrEmpty P s = s) \<and>
   PrintableUTF8OrEmpty P (PrintableUTF8OrEmpty P s) = PrintableUTF8OrEmpty P s"
proof -
  have loop: "printable_loop P s cs = (if \<forall>c \<in> set cs. c \<noteq> RuneError \<and> P c then s else '''')" for cs s
    by (induction cs) auto
  have ascii: "\<forall>c \<in> set (range_runes s). c \<noteq> RuneError \<and> P c" if a: "is_ascii s" "list_all (\<lambda>c. P (of_char c)) s"
  proof
    fix c assume "c \<in> set (range_runes s)"
    then obtain x where x: "x \<in> set s" "c = of_char x" using range_runes_ascii[OF a(1)] by auto
    then have "c < 128" using a(1) by (auto simp: is_ascii_def list_all_iff)
    then show "c \<noteq> RuneError \<and> P c" using x a(2) by (auto simp: list_all_iff)
  qed
  have empty: "PrintableUTF8OrEmpty P '''' = ''''" by (simp add: PrintableUTF8OrEmpty_def loop)
  have eq: "PrintableUTF8OrEmpty P s = (if \<forall>c \<in> set (range_runes s). c \<noteq> RuneError \<and> P c then s else '''')"
    by (simp add: PrintableUTF8OrEmpty_def loop)
  show ?thesis
  proof (cases "\<forall>c \<in> set (range_runes s). c \<noteq> RuneError \<and> P c")
    case True
    then have "PrintableUTF8OrEmpty P s = s" using eq by presburger
    with True show ?thesis by simp
  next
    case False
    then have e: "PrintableUTF8OrEmpty P s = ''''" using eq by presburger
    have "\<not> (is_ascii s \<and> list_all (\<lambda>c. P (of_char c)) s)" using False ascii by blast
    then show ?thesis unfolding e empty using False by auto
  qed
qed

theorem PrintableUTF8_spec_witness: "PrintableUTF8OrEmpty (ce_IsPrint demo_ce) ''USD'' = ''USD''"
  using PrintableUTF8_spec[of "ce_IsPrint demo_ce" "''USD''"] by (simp add: is_ascii_def demo_ce_def)

section \<open>A block\<close>

text \<open>
  C17. For a payset whose entries decode and whose local keys resolve, \<open>genTransactions\<close> returns one transaction per entry, in order, each the reference
  conversion with its own id and signature, and the offset of the i-th is the number of
  transactions, inner ones included, in the trees before it.
\<close>

theorem genTransactions_ok:
  assumes "decode_all (ce_ga ce) (blk_BlockHeader block) (blk_Payset block) = Inr ts" "list_all stxn_ok ts"
  shows "\<exists>txs. genTransactions ce block (blk_Payset block) = Ret (Inr txs) \<and> length txs = length (blk_Payset block) \<and>
    (\<forall>i < length txs. txs ! i = root_tx ce block i (of_nat (intra_at ts i)) (ts ! i) \<and>
       tx_Id (tx_fields (txs ! i)) = Some (ga_TxnID (ce_ga ce) (sad_Txn (ts ! i))) \<and>
       tx_ConfirmedRound (tx_fields (txs ! i)) = Some (bh_Round (blk_BlockHeader block)) \<and>
       tx_IntraRoundOffset (tx_fields (txs ! i)) = Some (of_nat (intra_at ts i)))"
proof -
  let ?txs = "map (\<lambda>i. root_tx ce block i (of_nat (intra_at ts i)) (ts ! i)) [0..<length ts]"
  have "genTransactions ce block (blk_Payset block) = Ret (Inr ?txs)"
    using gen_loop_ok[OF assms, of 0 0] by (simp add: genTransactions_def)
  moreover have "tx_Id (tx_fields (root_tx ce block i n t)) = Some (ga_TxnID (ce_ga ce) (sad_Txn t))"
    "tx_ConfirmedRound (tx_fields (root_tx ce block i n t)) = Some (bh_Round (blk_BlockHeader block))"
    "tx_IntraRoundOffset (tx_fields (root_tx ce block i n t)) = Some n" for i n t
    by (simp_all add: root_tx_def tx_with_id_sig_def conv_tx.simps[of ce t] transaction_fields_def Let_def
        uint64Ptr_def root_extra_def)
  ultimately show ?thesis using decode_all_length[OF assms(1)] by simp
qed

lemma demo_decode: "decode_all demo_ga demo_bh [demo_stib False, demo_stib False] = Inr [demo_call, demo_call]"
  by (simp add: demo_ga_def demo_stib_def)

lemma demo_blk_sel:
  "blk_BlockHeader (demo_blk b) = demo_bh" "blk_Payset (demo_blk b) = [demo_stib False, demo_stib b]" "ce_ga demo_ce = demo_ga"
  by (simp_all add: demo_blk_def demo_ce_def)

theorem genTransactions_ok_witness:
  "\<exists>txs. genTransactions demo_ce (demo_blk False) (blk_Payset (demo_blk False)) = Ret (Inr txs) \<and>
     map (\<lambda>tx. tx_IntraRoundOffset (tx_fields tx)) txs = [Some 0, Some 2]"
proof -
  have d: "decode_all (ce_ga demo_ce) (blk_BlockHeader (demo_blk False)) (blk_Payset (demo_blk False)) = Inr [demo_call, demo_call]"
    unfolding demo_blk_sel by (rule demo_decode)
  have o: "intra_at [demo_call, demo_call] 0 = 0" "intra_at [demo_call, demo_call] 1 = 2"
    by (simp_all add: intra_at_def txn_count_preorder demo_call_def demo_preorder)
  obtain txs where t: "genTransactions demo_ce (demo_blk False) (blk_Payset (demo_blk False)) = Ret (Inr txs)"
    "length txs = length (blk_Payset (demo_blk False))"
    "\<forall>i < length txs. tx_IntraRoundOffset (tx_fields (txs ! i)) = Some (of_nat (intra_at [demo_call, demo_call] i))"
    using genTransactions_ok[OF d] demo_call_ok by (metis list.pred_inject)
  have len: "length txs = 2" using t(2) by (simp add: demo_blk_sel)
  from len obtain x y where xy: "txs = [x, y]" by (auto simp: numeral_2_eq_2 length_Suc_conv)
  have "tx_IntraRoundOffset (tx_fields (txs ! 0)) = Some 0" "tx_IntraRoundOffset (tx_fields (txs ! 1)) = Some 2"
    using t(3) len o by auto
  then have "map (\<lambda>tx. tx_IntraRoundOffset (tx_fields tx)) txs = [Some 0, Some 2]" by (simp add: xy)
  with t(1) show ?thesis by (intro exI[of _ txs] conjI)
qed

text \<open>
  C22. The first payset entry that does not decode ends the conversion of the block with the decoder's message
  behind ``decode signed txn err'': no partial block is returned.
\<close>

theorem GenerateBlock_decode_error:
  assumes "blk_Payset block = pre @ s # post"
    and "\<forall>x \<in> set pre. \<exists>st ad. ga_DecodeSignedTxn (ce_ga ce) (blk_BlockHeader block) x = Inr (st, ad)
      \<and> stxn_ok (SignedTxnWithAD st ad)"
    and "ga_DecodeSignedTxn (ce_ga ce) (blk_BlockHeader block) s = Inl e"
  shows "GenerateBlock ce block = Ret (Inl (new_error (''decode signed txn err: '' @ err_msg e)))"
  using gen_loop_decode_error[OF assms(2,3), of 0 0 post] assms(1)
  by (simp add: GenerateBlock_def genTransactions_def Let_def wrap_decode_err_def del: gen_loop.simps)

theorem GenerateBlock_decode_error_witness:
  "GenerateBlock demo_ce (demo_blk True) = Ret (Inl (new_error ''decode signed txn err: bad''))"
  using GenerateBlock_decode_error[of "demo_blk True" "[demo_stib False]" "demo_stib True" "[]" demo_ce "new_error ''bad''"]
    demo_call_ok
  by (simp add: demo_blk_def demo_ce_def demo_ga_def demo_stib_def)

text \<open>A loop that ends well has converted every entry by the reference.\<close>

lemma gen_loop_result:
  "gen_loop ce block idx intra ss = Ret (Inr txs) \<Longrightarrow>
     length txs = length ss \<and> (\<forall>tx \<in> set txs. \<exists>i n t. stxn_ok t \<and> tx = root_tx ce block i n t)"
proof (induction ss arbitrary: idx intra txs)
  case (Cons s ss)
  obtain st ad where d: "ga_DecodeSignedTxn (ce_ga ce) (blk_BlockHeader block) s = Inr (st, ad)"
    using Cons.prems by (cases "ga_DecodeSignedTxn (ce_ga ce) (blk_BlockHeader block) s") (auto simp: Let_def)
  have ok: "idx < length (blk_Payset block)" "stxn_ok (SignedTxnWithAD st ad)"
    using Cons.prems d by (auto simp: Let_def transactionAssetID_block signedTxn_eq split: if_splits)
  obtain rest where r: "gen_loop ce block (Suc idx) (intra + of_nat (txn_count (SignedTxnWithAD st ad))) ss = Ret rest"
    "map_sum id (\<lambda>txs. root_tx ce block idx intra (SignedTxnWithAD st ad) # txs) rest = Inr txs"
    using Cons.prems gen_loop_step[OF d ok] by (auto simp: go_simps simp del: gen_loop.simps)
  then obtain txs' where "rest = Inr txs'" "txs = root_tx ce block idx intra (SignedTxnWithAD st ad) # txs'"
    by (cases rest) auto
  with Cons.IH r(1) ok(2) show ?case by fastforce
qed simp

text \<open>
  A converted block has the header of its source: round, genesis, previous hash, seed,
  timestamp and transaction counter, and as many transactions as the payset has entries.
\<close>

theorem GenerateBlock_header:
  assumes "GenerateBlock ce block = Ret (Inr resp)"
  shows "(let h = blk_BlockHeader block in
      br_Round resp = bh_Round h \<and> br_GenesisHash resp = bh_GenesisHash h \<and> br_GenesisId resp = bh_GenesisID h \<and>
      br_PreviousBlockHash resp = bh_Branch h \<and> br_Seed resp = bh_Seed h \<and>
      br_Timestamp resp = word_of_int (bh_TimeStamp h) \<and> br_TxnCounter resp = Some (bh_TxnCounter h)) \<and>
    (\<exists>txs. br_Transactions resp = Some txs \<and> length txs = length (blk_Payset block) \<and>
       genTransactions ce block (blk_Payset block) = Ret (Inr txs))"
proof -
  obtain r where r: "genTransactions ce block (blk_Payset block) = Ret r"
    using assms by (auto simp: GenerateBlock_def Let_def go_simps)
  with assms show ?thesis
    by (cases r) (auto simp: GenerateBlock_def Let_def block_header_response_def uint64Ptr_def
        genTransactions_def dest: gen_loop_result)
qed

lemma demo_generated: "\<exists>resp. GenerateBlock demo_ce (demo_blk False) = Ret (Inr resp)"
proof -
  have d: "decode_all (ce_ga demo_ce) (blk_BlockHeader (demo_blk False)) (blk_Payset (demo_blk False)) = Inr [demo_call, demo_call]"
    unfolding demo_blk_sel by (rule demo_decode)
  obtain txs where "genTransactions demo_ce (demo_blk False) (blk_Payset (demo_blk False)) = Ret (Inr txs)"
    using gen_loop_ok[OF d, of 0 0] demo_call_ok by (simp add: genTransactions_def del: gen_loop.simps)
  then show ?thesis by (simp add: GenerateBlock_def Let_def)
qed

theorem GenerateBlock_header_witness:
  "\<exists>resp. GenerateBlock demo_ce (demo_blk False) = Ret (Inr resp) \<and> br_Round resp = 5"
proof -
  obtain resp where r: "GenerateBlock demo_ce (demo_blk False) = Ret (Inr resp)" using demo_generated by blast
  then show ?thesis using GenerateBlock_header[OF r] by (simp add: Let_def demo_blk_sel demo_bh_def)
qed

end
