(* ===== verification/Program.thy ===== *)
theory Program
  imports Cache_Miss Convert_Properties
begin

text \<open>
  The whole program as one machine: the cluster with its caches, and the block requests in progress. Its steps are
  the updates of the cluster by any goroutine, the deliveries that the program makes, promises, and the parts of
  the requests, in any order. The concurrent caches of theory \<open>Unified_Cache\<close> are an abstraction of it: every step is
  one of their steps or none, so what was proved of them holds for the program, and the deliveries in
  their history are those that \<open>BlockSink\<close> and \<open>SinkError\<close> make.
\<close>

section \<open>The machine\<close>

text \<open>
  What the program delivers to the cache: a wrap that \<open>MakeBlockWrap\<close> made of a fetched block, whose round was
  announced to the cluster before, or a wrap of an error.
\<close>

definition delivery :: "wrap_env \<Rightarrow> BlockWrap \<Rightarrow> bool" where
  "delivery we b \<longleftrightarrow> (\<exists>now src block raw. MakeBlockWrap we now src block raw = Ret (Inr b)) \<or> (\<exists>r e. b = error_wrap r e)"

definition announced :: "'l NodeCluster \<Rightarrow> BlockWrap \<Rightarrow> bool" where
  "announced gs b \<longleftrightarrow> (bw_Error b = None \<longrightarrow> bw_Round b \<le> cl_latestRound gs)"

record 'l prog =
  pg_cl :: "'l NodeCluster"
  pg_calls :: "(u64 \<times> gb_pc) list"

definition set_cache :: "'l UnifiedBlockCache \<Rightarrow> 'l prog \<Rightarrow> 'l prog" where
  "set_cache u p = p\<lparr>pg_cl := (pg_cl p)\<lparr>cl_ucache := Some u\<rparr>\<rparr>"

definition set_call :: "nat \<Rightarrow> u64 \<times> gb_pc \<Rightarrow> 'l prog \<Rightarrow> 'l prog" where
  "set_call i c p = p\<lparr>pg_calls := (pg_calls p)[i := c]\<rparr>"

inductive pstep :: "wrap_env \<Rightarrow> 'l lru \<Rightarrow> 'l prog \<Rightarrow> 'l prog \<Rightarrow> bool" for we lru where
  p_cluster: "cstep lru (pg_cl p) gs \<Longrightarrow> cl_ucache gs = cl_ucache (pg_cl p) \<Longrightarrow> pstep we lru p (p\<lparr>pg_cl := gs\<rparr>)"
| p_deliver: "cl_ucache (pg_cl p) = Some u \<Longrightarrow> delivery we b \<Longrightarrow> announced (pg_cl p) b \<Longrightarrow>
    AddBlock lru u b = Ret u' \<Longrightarrow> pstep we lru p (set_cache u' p)"
| p_late_deliver: "cl_ucache (pg_cl p) = Some u \<Longrightarrow> delivery we b \<Longrightarrow> announced (pg_cl p) b \<Longrightarrow>
    a < length (st_entries (uc_store u)) \<Longrightarrow> bw_Round b = be_Round (st_entries (uc_store u) ! a) \<Longrightarrow>
    deliver_found a b (uc_store u) = Ret h \<Longrightarrow> pstep we lru p (set_cache (u\<lparr>uc_store := h\<rparr>) p)"
| p_promise: "cl_ucache (pg_cl p) = Some u \<Longrightarrow> PromiseBlock lru u r = Ret (a, u') \<Longrightarrow> pstep we lru p (set_cache u' p)"
| p_late_promise: "cl_ucache (pg_cl p) = Some u \<Longrightarrow> a < length (st_entries (uc_store u)) \<Longrightarrow>
    promise_found a (uc_store u) = Ret h \<Longrightarrow> pstep we lru p (set_cache (u\<lparr>uc_store := h\<rparr>) p)"
| p_request: "\<not> isBlockInTheFuture r (pg_cl p) \<Longrightarrow> pstep we lru p (p\<lparr>pg_calls := pg_calls p @ [(r, GB_Catchup1)]\<rparr>)"
| p_run: "cl_ucache (pg_cl p) = Some u \<Longrightarrow> i < length (pg_calls p) \<Longrightarrow> pg_calls p ! i = (r, pc) \<Longrightarrow>
    gb_step lru r pc u = Ret (pc', u') \<Longrightarrow> pstep we lru p (set_call i (r, pc') (set_cache u' p))"
| p_wake: "cl_ucache (pg_cl p) = Some u \<Longrightarrow> i < length (pg_calls p) \<Longrightarrow> pg_calls p ! i = (r, GB_Waiting pc a ch) \<Longrightarrow>
    ch \<in> set (st_closed (uc_store u)) \<Longrightarrow> gb_wake r pc a u = Ret pc' \<Longrightarrow> pstep we lru p (set_call i (r, pc') p)"
| p_timeout: "cl_ucache (pg_cl p) = Some u \<Longrightarrow> i < length (pg_calls p) \<Longrightarrow> pg_calls p ! i = (r, GB_Waiting pc a ch) \<Longrightarrow>
    gb_timeout lru r pc e u = Ret (pc', u') \<Longrightarrow> pstep we lru p (set_call i (r, pc') (set_cache u' p))"

abbreviation psteps :: "wrap_env \<Rightarrow> 'l lru \<Rightarrow> 'l prog \<Rightarrow> 'l prog \<Rightarrow> bool" where
  "psteps we lru \<equiv> (pstep we lru)\<^sup>*\<^sup>*"

text \<open>The states of a program that was started with a configuration, as \<open>main\<close> does.\<close>

definition started :: "'l lru \<Rightarrow> instant \<Rightarrow> AlgodCfg \<Rightarrow> 'l prog" where
  "started lru now cfg = \<lparr>pg_cl = NewCluster now (Some (New lru)) cfg, pg_calls = []\<rparr>"

definition running_prog :: "wrap_env \<Rightarrow> 'l lru \<Rightarrow> 'l prog \<Rightarrow> bool" where
  "running_prog we lru p \<longleftrightarrow> (\<exists>now cfg. psteps we lru (started lru now cfg) p)"

section \<open>The caches as an abstraction\<close>

definition cache_of :: "'l prog \<Rightarrow> 'l UnifiedBlockCache" where
  "cache_of p = the (cl_ucache (pg_cl p))"

definition as_caches :: "'l prog \<Rightarrow> 'l usys" where
  "as_caches p = \<lparr>us_cache = cache_of p, us_calls = pg_calls p\<rparr>"

lemma cache_of_Some [simp]: "cl_ucache (pg_cl p) = Some u \<Longrightarrow> cache_of p = u"
  by (simp add: cache_of_def)

lemma set_cache_simps [simp]:
  "cl_ucache (pg_cl (set_cache u p)) = Some u" "cache_of (set_cache u p) = u" "pg_calls (set_cache u p) = pg_calls p"
  "cl_latestRound (pg_cl (set_cache u p)) = cl_latestRound (pg_cl p)" "pg_cl (set_cache u p) = (pg_cl p)\<lparr>cl_ucache := Some u\<rparr>"
  by (simp_all add: set_cache_def cache_of_def)

lemma set_call_simps [simp]:
  "pg_cl (set_call i c p) = pg_cl p" "cache_of (set_call i c p) = cache_of p" "pg_calls (set_call i c p) = (pg_calls p)[i := c]"
  by (simp_all add: set_call_def cache_of_def)

text \<open>One step of the program is at most one step of the caches, and a delivery is one of the program's.\<close>

lemma pstep_caches:
  assumes "pstep we lru p p'" "cl_ucache (pg_cl p) \<noteq> None"
  shows "cl_ucache (pg_cl p') \<noteq> None \<and>
    (as_caches p' = as_caches p \<or>
     (\<exists>l. ustep lru l (as_caches p) (as_caches p') \<and> (case l of None \<Rightarrow> True | Some b \<Rightarrow> delivery we b \<and> announced (pg_cl p) b)))"
  using assms(1)
proof cases
  case (p_cluster gs)
  then show ?thesis using assms(2) by (simp add: as_caches_def cache_of_def)
next
  case (p_deliver u b u')
  then have "ustep lru (Some b) (as_caches p) ((as_caches p)\<lparr>us_cache := u'\<rparr>)" by (intro us_add) (simp add: as_caches_def)
  then show ?thesis using p_deliver by (intro conjI disjI2 exI[of _ "Some b"]) (simp_all add: as_caches_def)
next
  case (p_late_deliver u b a h)
  then have "ustep lru (Some b) (as_caches p) ((as_caches p)\<lparr>us_cache := (us_cache (as_caches p))\<lparr>uc_store := h\<rparr>\<rparr>)"
    by (intro us_deliver) (simp_all add: as_caches_def)
  then show ?thesis using p_late_deliver by (intro conjI disjI2 exI[of _ "Some b"]) (simp_all add: as_caches_def)
next
  case (p_promise u r a u')
  then have "ustep lru None (as_caches p) ((as_caches p)\<lparr>us_cache := u'\<rparr>)" by (intro us_promise[where r = r and a = a]) (simp add: as_caches_def)
  then show ?thesis using p_promise by (intro conjI disjI2 exI[of _ None]) (simp_all add: as_caches_def)
next
  case (p_late_promise u a h)
  then have "ustep lru None (as_caches p) ((as_caches p)\<lparr>us_cache := (us_cache (as_caches p))\<lparr>uc_store := h\<rparr>\<rparr>)"
    by (intro us_rearm) (simp_all add: as_caches_def)
  then show ?thesis using p_late_promise by (intro conjI disjI2 exI[of _ None]) (simp_all add: as_caches_def)
next
  case (p_request r)
  have "ustep lru None (as_caches p) ((as_caches p)\<lparr>us_calls := us_calls (as_caches p) @ [(r, GB_Catchup1)]\<rparr>)" by (rule us_call)
  then show ?thesis
    using p_request assms(2) by (intro conjI disjI2 exI[of _ None]) (simp_all add: as_caches_def cache_of_def)
next
  case (p_run u i r pc pc' u')
  then have "ustep lru None (as_caches p) ((as_caches p)\<lparr>us_cache := u', us_calls := (us_calls (as_caches p))[i := (r, pc')]\<rparr>)"
    by (intro us_run) (simp_all add: as_caches_def)
  then show ?thesis using p_run by (intro conjI disjI2 exI[of _ None]) (simp_all add: as_caches_def)
next
  case (p_wake u i r pc a ch pc')
  then have "ustep lru None (as_caches p) ((as_caches p)\<lparr>us_calls := (us_calls (as_caches p))[i := (r, pc')]\<rparr>)"
    by (intro us_wake) (simp_all add: as_caches_def)
  then show ?thesis using p_wake by (intro conjI disjI2 exI[of _ None]) (simp_all add: as_caches_def)
next
  case (p_timeout u i r pc a ch e pc' u')
  then have "ustep lru None (as_caches p) ((as_caches p)\<lparr>us_cache := u', us_calls := (us_calls (as_caches p))[i := (r, pc')]\<rparr>)"
    by (intro us_timeout) (simp_all add: as_caches_def)
  then show ?thesis using p_timeout by (intro conjI disjI2 exI[of _ None]) (simp_all add: as_caches_def)
qed

lemma pstep_cluster:
  assumes "pstep we lru p p'"
  shows "cstep lru (pg_cl p) (pg_cl p') \<or> pg_cl p' = (pg_cl p)\<lparr>cl_ucache := cl_ucache (pg_cl p')\<rparr>"
  using assms by cases simp_all

section \<open>The invariant of the program\<close>

definition prog_ok :: "wrap_env \<Rightarrow> 'l lru \<Rightarrow> ('l \<Rightarrow> bool) \<Rightarrow> 'l prog \<Rightarrow> bool" where
  "prog_ok we lru linv p \<longleftrightarrow> cl_ok lru linv (pg_cl p) \<and> cl_ucache (pg_cl p) \<noteq> None \<and>
     (\<exists>bs. uhist lru bs (as_caches p) \<and> (\<forall>b \<in> set bs. delivery we b \<and> announced (pg_cl p) b))"

context lru_contract
begin

lemma uhist_uc_ok: "uhist lru bs s \<Longrightarrow> uc_ok lru linv (us_cache s)"
  using ureach_ok[OF uhist_ureach] by (fastforce simp: usys_ok_def uc_ok_def cache_ok_def)

lemma started_ok: "prog_ok we lru linv (started lru now cfg)"
proof -
  have "uhist lru [] (as_caches (started lru now cfg))"
    using uhist_init by (simp add: as_caches_def started_def cache_of_def NewCluster_rest)
  moreover have "cl_ok lru linv (pg_cl (started lru now cfg))"
    unfolding started_def by simp (rule NewCluster_ok, simp add: New_uc_ok)
  ultimately show ?thesis by (auto simp: prog_ok_def started_def NewCluster_rest intro!: exI[of _ "[]"])
qed

lemma pstep_ok:
  assumes "pstep we lru p p'" "prog_ok we lru linv p"
  shows "prog_ok we lru linv p'"
proof -
  obtain bs where p: "cl_ok lru linv (pg_cl p)" "cl_ucache (pg_cl p) \<noteq> None" "uhist lru bs (as_caches p)"
    "\<forall>b \<in> set bs. delivery we b \<and> announced (pg_cl p) b" using assms(2) by (auto simp: prog_ok_def)
  note c = pstep_caches[OF assms(1) p(2)]
  have "\<exists>l. uhist lru (bs @ l) (as_caches p') \<and> (\<forall>b \<in> set l. delivery we b \<and> announced (pg_cl p) b)"
  proof (cases "as_caches p' = as_caches p")
    case True
    then show ?thesis using p(3) by (intro exI[of _ "[]"]) simp
  next
    case False
    then obtain l where l: "ustep lru l (as_caches p) (as_caches p')"
      "case l of None \<Rightarrow> True | Some b \<Rightarrow> delivery we b \<and> announced (pg_cl p) b" using c by blast
    then show ?thesis using uhist_step[OF p(3) l(1)] by (intro exI[of _ "case l of None \<Rightarrow> [] | Some b \<Rightarrow> [b]"]) (auto split: option.splits)
  qed
  then obtain l where l: "uhist lru (bs @ l) (as_caches p')" "\<forall>b \<in> set l. delivery we b \<and> announced (pg_cl p) b" by blast
  obtain u' where u': "cl_ucache (pg_cl p') = Some u'" using c by blast
  with uhist_uc_ok[OF l(1)] have uc: "uc_ok lru linv u'" by (simp add: as_caches_def)
  have cl: "cl_ok lru linv (pg_cl p') \<and> cl_latestRound (pg_cl p) \<le> cl_latestRound (pg_cl p')"
    using pstep_cluster[OF assms(1)]
  proof
    assume s: "cstep lru (pg_cl p) (pg_cl p')"
    then show ?thesis using cstep_ok[OF s p(1)] cstep_le[OF s p(1)] by (simp add: cl_le_def)
  next
    assume "pg_cl p' = (pg_cl p)\<lparr>cl_ucache := cl_ucache (pg_cl p')\<rparr>"
    then have "pg_cl p' = (pg_cl p)\<lparr>cl_ucache := Some u'\<rparr>" using u' by simp
    then show ?thesis using p(1) uc by (simp add: cl_ok_def)
  qed
  then have "announced (pg_cl p') b" if "announced (pg_cl p) b" for b using that by (auto simp: announced_def)
  then have "\<forall>b \<in> set (bs @ l). delivery we b \<and> announced (pg_cl p') b" using p(4) l(2) by auto
  then show ?thesis using cl l(1) u' by (auto simp: prog_ok_def)
qed

lemma running_ok: "running_prog we lru p \<Longrightarrow> prog_ok we lru linv p"
proof -
  have "psteps we lru q p \<Longrightarrow> prog_ok we lru linv q \<Longrightarrow> prog_ok we lru linv p" for q
    by (induction rule: rtranclp_induct) (auto intro: pstep_ok)
  then show "running_prog we lru p \<Longrightarrow> prog_ok we lru linv p" using started_ok by (auto simp: running_prog_def)
qed

end

section \<open>The operations are steps\<close>

text \<open>The cluster can get from one state to another, whatever requests are in progress.\<close>

definition moves :: "wrap_env \<Rightarrow> 'l lru \<Rightarrow> 'l NodeCluster \<Rightarrow> 'l NodeCluster \<Rightarrow> bool" where
  "moves we lru gs gs' \<longleftrightarrow> (\<forall>calls. psteps we lru \<lparr>pg_cl = gs, pg_calls = calls\<rparr> \<lparr>pg_cl = gs', pg_calls = calls\<rparr>)"

lemma moves_refl [simp]: "moves we lru gs gs"
  by (simp add: moves_def)

lemma moves_trans: "moves we lru gs gs1 \<Longrightarrow> moves we lru gs1 gs' \<Longrightarrow> moves we lru gs gs'"
  unfolding moves_def by (meson rtranclp_trans)

lemma moves_cluster: "cstep lru gs gs' \<Longrightarrow> cl_ucache gs' = cl_ucache gs \<Longrightarrow> moves we lru gs gs'"
  unfolding moves_def using p_cluster[where p = "\<lparr>pg_cl = gs, pg_calls = calls\<rparr>" for calls] by (auto intro!: r_into_rtranclp)

lemma moves_deliver:
  "cl_ucache gs = Some u \<Longrightarrow> delivery we b \<Longrightarrow> announced gs b \<Longrightarrow> AddBlock lru u b = Ret u' \<Longrightarrow>
     moves we lru gs (gs\<lparr>cl_ucache := Some u'\<rparr>)"
  unfolding moves_def using p_deliver[where p = "\<lparr>pg_cl = gs, pg_calls = calls\<rparr>" for calls]
  by (auto simp: set_cache_def intro!: r_into_rtranclp)

lemma moves_promise: "promise_in lru r gs = Ret gs' \<Longrightarrow> moves we lru gs gs'"
  unfolding moves_def using p_promise[where p = "\<lparr>pg_cl = gs, pg_calls = calls\<rparr>" for calls]
  by (auto simp: set_cache_def promise_in_def go_simps split: option.splits intro!: r_into_rtranclp)

lemma BlockSink_moves:
  assumes "BlockSink lru we now i block raw gs = Ret (sunk, gs')" "i < length (cl_nodes gs)"
  shows "moves we lru gs gs'"
proof -
  let ?r = "bh_Round (blk_BlockHeader (ebc_Block block))"
  obtain won gs1 where w: "SetLatestRound now ?r i gs = (won, gs1)" by (metis surj_pair)
  then have s1: "moves we lru gs gs1" and lr: "?r \<le> cl_latestRound gs1"
    using cs_latest[OF assms(2) w] by (auto intro!: moves_cluster simp: SetLatestRound_def split: if_splits)
  from assms(1) w show ?thesis
  proof (cases rule: BlockSink_cases)
    case keep
    then show ?thesis using s1 by simp
  next
    case (add u bw u')
    have "delivery we bw" unfolding delivery_def using add(4) by blast
    moreover have "announced gs1 bw" using lr MakeBlockWrap_Inr[OF add(4)] by (simp add: announced_def)
    ultimately show ?thesis using moves_trans[OF s1 moves_deliver[OF add(1) _ _ add(2)]] add(3) by simp
  qed
qed

lemma SinkError_moves:
  assumes "SinkError lru r err gs = Ret gs'"
  shows "moves we lru gs gs'"
proof (cases "cl_ucache gs")
  case (Some u)
  let ?b = "error_wrap r (case err of None \<Rightarrow> ledger_error | Some e \<Rightarrow> e)"
  have "delivery we ?b" unfolding delivery_def by blast
  then show ?thesis
    using assms Some by (auto simp: SinkError_def go_simps announced_def intro!: moves_deliver[where b = ?b])
qed (use assms in \<open>simp add: SinkError_def\<close>)

lemma for_loop_moves:
  assumes "\<And>i gs gs'. body i gs = Ret gs' \<Longrightarrow> moves we lru gs gs'" "for_loop body i to gs = Some (Ret gs')"
  shows "moves we lru gs gs'"
proof -
  have "body' = body \<longrightarrow> (\<forall>gs'. y = Ret gs' \<longrightarrow> moves we lru gs gs')" if "for_loop body' i to gs = Some y" for body' i to gs y
  proof (rule for_loop.raw_induct[where P = "\<lambda>body' i to gs y. body' = body \<longrightarrow> (\<forall>gs'. y = Ret gs' \<longrightarrow> moves we lru gs gs')", OF _ that], goal_cases)
    case (1 F body' i to gs y)
    then show ?case by (auto split: if_splits go.splits intro: moves_trans[OF assms(1)])
  qed
  then show ?thesis using assms(2) by blast
qed

lemma prefetchDetect_moves:
  assumes "prefetchDetect lru t_new t_pre t_prune rnd gs = Some (Ret gs')"
  shows "moves we lru gs gs'"
proof -
  have bps: "moves we lru gs (gs\<lparr>cl_bps := bps\<rparr>)" for gs :: "'a NodeCluster" and bps by (rule moves_cluster[OF cs_bps]) simp
  obtain k gs1 where c: "count_request t_new rnd gs = (k, gs1)" by (metis surj_pair)
  then obtain gs2 where b: "prefetch_batch lru t_pre rnd k gs1 = Some (Ret gs2)" and gs': "gs' = prefetchPrune t_prune gs2"
    using assms by (auto simp: prefetchDetect_def run_bind_Ret run_ret_def)
  have first: "promise_first lru rnd i g = Ret g' \<Longrightarrow> moves we lru g g'" for i g g'
    by (auto simp: promise_first_def go_simps split: if_splits intro: moves_promise)
  have set_bp: "moves we lru g g' \<Longrightarrow> moves we lru g (set_bp k bp g')" for g g' bp
    unfolding set_bp_def using bps moves_trans by blast
  have loops: "for_loop (promise_first lru rnd) a z g = Some (Ret g') \<Longrightarrow> moves we lru g g'"
    "for_loop (promise_in lru) a z g = Some (Ret g') \<Longrightarrow> moves we lru g g'" for a z g g'
    by (rule for_loop_moves; (rule first moves_promise | assumption); assumption)+
  have "moves we lru gs1 gs2"
    using b by (auto simp: prefetch_batch_def Let_def run_bind_Ret run_ret_def split: if_splits intro!: set_bp dest: loops)
  moreover have "moves we lru gs gs1" using count_request_frame[OF c] bps by auto
  moreover have "moves we lru gs2 gs'" unfolding gs' prefetchPrune_def by (rule bps)
  ultimately show ?thesis using moves_trans by blast
qed

text \<open>A call of \<open>GetBlock\<close> is a new request and its parts.\<close>

lemma gb_run_psteps:
  assumes "cl_ucache (pg_cl p) = Some u" "i < length (pg_calls p)" "pg_calls p ! i = (r, pc)"
    and "gb_run n lru r pc u = Ret (pc', u')"
  shows "psteps we lru p (set_call i (r, pc') (set_cache u' p))"
  using assms
proof (induction n arbitrary: p u pc)
  case 0
  have "set_call i (pg_calls p ! i) (set_cache u p) = p" using 0(1) by (simp add: set_call_def set_cache_def)
  then show ?case using 0 by simp
next
  case (Suc n)
  obtain pc1 u1 where s: "gb_step lru r pc u = Ret (pc1, u1)" "gb_run n lru r pc1 u1 = Ret (pc', u')"
    using Suc.prems(4) by (auto simp: go_simps)
  let ?p1 = "set_call i (r, pc1) (set_cache u1 p)"
  have "psteps we lru ?p1 (set_call i (r, pc') (set_cache u' ?p1))" by (rule Suc.IH) (use Suc.prems(2) s(2) in simp_all)
  moreover have "set_call i (r, pc') (set_cache u' ?p1) = set_call i (r, pc') (set_cache u' p)"
    by (simp add: set_call_def set_cache_def)
  ultimately show ?case
    using p_run[OF Suc.prems(1-3) s(1), of we] by (auto intro: converse_rtranclp_into_rtranclp)
qed

lemma GetBlock_psteps:
  assumes "GetBlock lru r msgp gs = Ret (Inr (pc, gs'))"
  shows "psteps we lru \<lparr>pg_cl = gs, pg_calls = calls\<rparr> \<lparr>pg_cl = gs', pg_calls = calls @ [(r, pc)]\<rparr>"
proof -
  let ?gs1 = "if msgp then prefetchNotify r gs else gs"
  have now: "\<not> isBlockInTheFuture r gs" using assms by (auto simp: GetBlock_def)
  obtain u u' where u: "cl_ucache ?gs1 = Some u" "gb_run 9 lru r GB_Catchup1 u = Ret (pc, u')" "gs' = ?gs1\<lparr>cl_ucache := Some u'\<rparr>"
    using assms now by (auto simp: GetBlock_def Let_def go_simps split: option.splits)
  have "cl_ucache (prefetchNotify r gs) = cl_ucache gs" by (simp add: prefetchNotify_def)
  then have "moves we lru gs (prefetchNotify r gs)" by (rule moves_cluster[OF cs_prefetch])
  then have "moves we lru gs ?gs1" by simp
  then have 1: "psteps we lru \<lparr>pg_cl = gs, pg_calls = calls\<rparr> \<lparr>pg_cl = ?gs1, pg_calls = calls\<rparr>" by (simp add: moves_def)
  let ?p = "\<lparr>pg_cl = ?gs1, pg_calls = calls @ [(r, GB_Catchup1)]\<rparr>"
  have "\<not> isBlockInTheFuture r ?gs1" using now by (simp add: isBlockInTheFuture_def prefetchNotify_def)
  then have 2: "pstep we lru \<lparr>pg_cl = ?gs1, pg_calls = calls\<rparr> ?p" using p_request[where p = "\<lparr>pg_cl = ?gs1, pg_calls = calls\<rparr>"] by simp
  have "psteps we lru ?p (set_call (length calls) (r, pc) (set_cache u' ?p))"
    by (rule gb_run_psteps[OF _ _ _ u(2)]) (use u(1) in simp_all)
  then have 3: "psteps we lru ?p \<lparr>pg_cl = gs', pg_calls = calls @ [(r, pc)]\<rparr>" using u(3) by (simp add: set_call_def set_cache_def)
  from rtranclp_trans[OF 1 converse_rtranclp_into_rtranclp[OF 2 3]] show ?thesis .
qed


section \<open>Properties\<close>

text \<open>A run: a node announces round 5, the empty block of that round is delivered, then asked for.\<close>

definition demo_cert :: EncodedBlockCert where
  "demo_cert = \<lparr>ebc_Block = \<lparr>blk_BlockHeader = demo_bh, blk_Payset = []\<rparr>, ebc_Certificate = []\<rparr>"

definition demo_we :: wrap_env where
  "demo_we = \<lparr>we_conv = demo_ce, we_enc_block = (\<lambda>c. Inr [1, 2]), we_enc_resp = (\<lambda>r. Inr [3])\<rparr>"

definition demo_wrap :: BlockWrap where
  "demo_wrap = \<lparr>bw_Round = 5, bw_BlockMsgPack = [9], bw_Block = Some demo_cert, bw_BlockJsonIdx = string_of [3],
     bw_BlockJsonNode = string_of [1, 2], bw_Src = ''n1'', bw_CachedAt = 0, bw_Error = None\<rparr>"

lemma demo_wrap_made: "MakeBlockWrap demo_we 0 ''n1'' demo_cert [9] = Ret (Inr demo_wrap)"
proof -
  have "\<exists>resp. GenerateBlock demo_ce (ebc_Block demo_cert) = Ret (Inr resp)"
    by (simp add: GenerateBlock_def genTransactions_def demo_cert_def Let_def)
  then obtain resp where "GenerateBlock demo_ce (ebc_Block demo_cert) = Ret (Inr resp)" ..
  then show ?thesis
    by (simp add: MakeBlockWrap_def EncodeJson_def demo_we_def demo_wrap_def) (simp add: demo_cert_def demo_bh_def)
qed

definition demo_cache :: "lru_list UnifiedBlockCache" where
  "demo_cache = ret (AddBlock lru_list_ops (New lru_list_ops) demo_wrap)"

definition demo_ahead :: "lru_list NodeCluster" where
  "demo_ahead = snd (SetLatestRound 0 5 0 (NewCluster 0 (Some (New lru_list_ops)) demo_acfg))"

lemma demo_ahead_simps [simp]:
  "cl_latestRound demo_ahead = 5" "cl_ucache demo_ahead = Some (New lru_list_ops)"
  by (simp_all add: demo_ahead_def SetLatestRound_def NewCluster_rest)

lemma demo_hit:
  "AddBlock lru_list_ops (New lru_list_ops) demo_wrap = Ret demo_cache"
  "\<exists>u'. gb_step lru_list_ops 5 GB_Catchup1 demo_cache = Ret (GB_Done (Some demo_wrap) None, u')"
  by (simp_all add: cache_eval demo_wrap_def demo_cache_def)

lemma demo_prog_run:
  "\<exists>p. running_prog demo_we lru_list_ops p \<and> pg_calls p = [(5, GB_Done (Some demo_wrap) None)] \<and> cl_latestRound (pg_cl p) = 5"
proof -
  let ?L = lru_list_ops and ?p0 = "started lru_list_ops 0 demo_acfg"
  obtain u' where run: "gb_step ?L 5 GB_Catchup1 demo_cache = Ret (GB_Done (Some demo_wrap) None, u')" using demo_hit(2) by blast
  have deliv: "delivery demo_we demo_wrap" unfolding delivery_def using demo_wrap_made by blast
  let ?p1 = "?p0\<lparr>pg_cl := demo_ahead\<rparr>"
  let ?p2 = "set_cache demo_cache ?p1"
  let ?p3 = "?p2\<lparr>pg_calls := [(5, GB_Catchup1)]\<rparr>"
  let ?p4 = "set_call 0 (5, GB_Done (Some demo_wrap) None) (set_cache u' ?p3)"
  have 1: "pstep demo_we ?L ?p0 ?p1"
  proof (rule p_cluster)
    obtain won where "SetLatestRound 0 5 0 (NewCluster 0 (Some (New ?L)) demo_acfg) = (won, demo_ahead)"
      unfolding demo_ahead_def by (metis prod.collapse)
    from cs_latest[OF _ this] show "cstep ?L (pg_cl ?p0) demo_ahead"
      by (simp add: started_def NewCluster_nodes demo_acfg_def demo_nodes_def)
  qed (simp add: started_def NewCluster_rest)
  have 2: "pstep demo_we ?L ?p1 ?p2" using p_deliver[of ?p1 "New ?L" demo_we demo_wrap ?L] demo_hit(1) deliv by (simp add: announced_def demo_wrap_def)
  have 3: "pstep demo_we ?L ?p2 ?p3"
    using p_request[of 5 ?p2 demo_we ?L] by (simp add: started_def isBlockInTheFuture_def set_cache_def)
  have 4: "pstep demo_we ?L ?p3 ?p4" using p_run[OF _ _ _ run, of ?p3 0 demo_we] by simp
  have "psteps demo_we ?L ?p0 ?p4" using 1 2 3 4 by (meson converse_rtranclp_into_rtranclp r_into_rtranclp)
  then have "running_prog demo_we ?L ?p4" unfolding running_prog_def by blast
  then show ?thesis by (intro exI[of _ ?p4]) (simp add: set_cache_def)
qed





text \<open>
  C3. The operations of the code are runs of the machine: the delivery of a block by a node, the delivery of an error, the
  treatment of a prefetch request and a call of \<open>GetBlock\<close>, each whole.
\<close>

theorem operations_are_runs:
  "(i < length (cl_nodes gs) \<and> BlockSink lru we now i block raw gs = Ret (sunk, gs1) \<longrightarrow>
      psteps we lru \<lparr>pg_cl = gs, pg_calls = calls\<rparr> \<lparr>pg_cl = gs1, pg_calls = calls\<rparr>) \<and>
   (SinkError lru r err gs = Ret gs2 \<longrightarrow>
      psteps we lru \<lparr>pg_cl = gs, pg_calls = calls\<rparr> \<lparr>pg_cl = gs2, pg_calls = calls\<rparr>) \<and>
   (prefetchDetect lru t_new t_pre t_prune r gs = Some (Ret gs3) \<longrightarrow>
      psteps we lru \<lparr>pg_cl = gs, pg_calls = calls\<rparr> \<lparr>pg_cl = gs3, pg_calls = calls\<rparr>) \<and>
   (GetBlock lru r msgp gs = Ret (Inr (pc, gs4)) \<longrightarrow>
      psteps we lru \<lparr>pg_cl = gs, pg_calls = calls\<rparr> \<lparr>pg_cl = gs4, pg_calls = calls @ [(r, pc)]\<rparr>)"
  using BlockSink_moves[of lru we now i block raw gs sunk gs1] SinkError_moves[of lru r err gs gs2]
    prefetchDetect_moves[of lru t_new t_pre t_prune r gs gs3] GetBlock_psteps[of lru r msgp gs pc gs4]
  by (auto simp: moves_def)

text \<open>The run of the example made by the code: node 0 delivers the block of round 5, and a call is answered with it.\<close>

lemma demo_operations:
  "BlockSink lru_list_ops demo_we 0 0 demo_cert [9] (pg_cl (started lru_list_ops 0 demo_acfg)) =
     Ret (True, demo_ahead\<lparr>cl_ucache := Some demo_cache\<rparr>)"
  "\<exists>gs'. GetBlock lru_list_ops 5 False (demo_ahead\<lparr>cl_ucache := Some demo_cache\<rparr>) = Ret (Inr (GB_Done (Some demo_wrap) None, gs'))"
proof -
  let ?gs = "pg_cl (started lru_list_ops 0 demo_acfg)"
  have r: "bh_Round (blk_BlockHeader (ebc_Block demo_cert)) = 5" by (simp add: demo_cert_def demo_bh_def)
  have won: "SetLatestRound 0 5 0 ?gs = (True, demo_ahead)"
    by (simp add: started_def demo_ahead_def SetLatestRound_def NewCluster_rest)
  have id: "nc_Id (nd_cfg (cl_nodes ?gs ! 0)) = ''n1''"
    by (simp add: started_def NewCluster_nodes demo_acfg_def demo_nodes_def new_node_def)
  show "BlockSink lru_list_ops demo_we 0 0 demo_cert [9] ?gs = Ret (True, demo_ahead\<lparr>cl_ucache := Some demo_cache\<rparr>)"
    by (subst BlockSink_eq[of _ _ _ _ True demo_ahead "New lru_list_ops"])
      (simp_all only: r won demo_ahead_simps, simp add: id demo_wrap_made demo_hit(1))
  obtain u' where "gb_step lru_list_ops 5 GB_Catchup1 demo_cache = Ret (GB_Done (Some demo_wrap) None, u')"
    using demo_hit(2) by blast
  then have "gb_run 9 lru_list_ops 5 GB_Catchup1 demo_cache = Ret (GB_Done (Some demo_wrap) None, u')"
    by (simp add: gb_run_step gb_run_idle)
  then show "\<exists>gs'. GetBlock lru_list_ops 5 False (demo_ahead\<lparr>cl_ucache := Some demo_cache\<rparr>) = Ret (Inr (GB_Done (Some demo_wrap) None, gs'))"
    by (simp add: GetBlock_def isBlockInTheFuture_def)
qed

theorem operations_are_runs_witness:
  "\<exists>gs'. psteps demo_we lru_list_ops (started lru_list_ops 0 demo_acfg) \<lparr>pg_cl = demo_ahead\<lparr>cl_ucache := Some demo_cache\<rparr>, pg_calls = []\<rparr> \<and>
     psteps demo_we lru_list_ops \<lparr>pg_cl = demo_ahead\<lparr>cl_ucache := Some demo_cache\<rparr>, pg_calls = []\<rparr>
       \<lparr>pg_cl = gs', pg_calls = [(5, GB_Done (Some demo_wrap) None)]\<rparr>"
proof -
  let ?gs = "demo_ahead\<lparr>cl_ucache := Some demo_cache\<rparr>" and ?s = "started lru_list_ops 0 demo_acfg"
  obtain gs' where g: "GetBlock lru_list_ops 5 False ?gs = Ret (Inr (GB_Done (Some demo_wrap) None, gs'))"
    using demo_operations(2) by blast
  have v: "0 < length (cl_nodes (pg_cl ?s))" by (simp add: started_def NewCluster_nodes demo_acfg_def demo_nodes_def)
  have s: "\<lparr>pg_cl = pg_cl ?s, pg_calls = []\<rparr> = ?s" by (simp add: started_def)
  have "psteps demo_we lru_list_ops \<lparr>pg_cl = pg_cl ?s, pg_calls = []\<rparr> \<lparr>pg_cl = ?gs, pg_calls = []\<rparr>"
    using operations_are_runs[THEN conjunct1] v demo_operations(1) by blast
  moreover have "psteps demo_we lru_list_ops \<lparr>pg_cl = ?gs, pg_calls = []\<rparr> \<lparr>pg_cl = gs', pg_calls = [] @ [(5, GB_Done (Some demo_wrap) None)]\<rparr>"
    using operations_are_runs[THEN conjunct2, THEN conjunct2, THEN conjunct2] g by blast
  ultimately show ?thesis unfolding s append_Nil by blast
qed

end
