(* ===== verification/Stxn.thy ===== *)
theory Stxn
  imports Convert_Properties
begin

text \<open>
  \<open>internal/algod/stxn.go\<close>: \<open>DecodeTxnId\<close> restores the genesis fields that a block
  leaves out of its transactions and computes the transaction id. The function receives a pointer and
  writes to the transaction behind it, so the model returns the transaction as it is afterwards, on the
  error paths too. The consensus table, \<open>crypto.GetTxID\<close> and the formatting of a digest with
  \<open>%v\<close> are parameters.
\<close>

section \<open>Definitions\<close>

record ConsensusParams =
  cp_SupportSignedTxnInBlock :: bool
  cp_RequireGenesisHash :: bool

record txid_env =
  te_Consensus :: "string \<Rightarrow> ConsensusParams option"
  te_GetTxID :: "Txn \<Rightarrow> string"
  te_digest_string :: "byte list \<Rightarrow> string"

text \<open>\<open>types.Digest\<close> is an array of 32 bytes.\<close>

definition zero_Digest :: "byte list" where
  "zero_Digest = replicate 32 0"

text \<open>The transaction behind \<open>stb.SignedTxn.Txn\<close>, and a write to its header.\<close>

definition stb_Txn :: "SignedTxnInBlock \<Rightarrow> Txn" where
  "stb_Txn stb = sad_Txn (sib_Txn stb)"

abbreviation stb_header :: "SignedTxnInBlock \<Rightarrow> TxnHeader" where
  "stb_header stb \<equiv> txn_Header (stb_Txn stb)"

definition upd_header :: "(TxnHeader \<Rightarrow> TxnHeader) \<Rightarrow> SignedTxnInBlock \<Rightarrow> SignedTxnInBlock" where
  "upd_header f stb =
     (let st = sad_SignedTxn (sib_Txn stb) in
      stb\<lparr>sib_Txn := SignedTxnWithAD (st\<lparr>stx_Txn := (stx_Txn st)\<lparr>txn_Header := f (txn_Header (stx_Txn st))\<rparr>\<rparr>)
                       (sad_ApplyData (sib_Txn stb))\<rparr>)"

definition DecodeTxnId ::
  "txid_env \<Rightarrow> BlockHeader \<Rightarrow> SignedTxnInBlock \<Rightarrow> (goerror + string) \<times> SignedTxnInBlock" where
  "DecodeTxnId te bh stb =
     (case te_Consensus te (bh_CurrentProtocol bh) of
        None \<Rightarrow> (Inl (new_error (''consensus protocol '' @ bh_CurrentProtocol bh @ '' not found'')), stb)
      | Some proto \<Rightarrow>
          if \<not> cp_SupportSignedTxnInBlock proto then (Inr '''', stb)
          else if th_GenesisID (stb_header stb) \<noteq> ''''
          then (Inl (new_error (''GenesisID <'' @ th_GenesisID (stb_header stb) @ ''> not empty'')), stb)
          else
            let stb1 = (if sib_HasGenesisID stb then upd_header (\<lambda>h. h\<lparr>th_GenesisID := bh_GenesisID bh\<rparr>) stb else stb) in
            if th_GenesisHash (stb_header stb1) \<noteq> zero_Digest
            then (Inl (new_error (''GenesisHash <'' @ te_digest_string te (th_GenesisHash (stb_header stb1)) @ ''> not empty'')), stb1)
            else if cp_RequireGenesisHash proto \<and> sib_HasGenesisHash stb1
            then (Inl (new_error ''HasGenesisHash set to true but RequireGenesisHash obviates the flag''), stb1)
            else
              let stb2 = (if cp_RequireGenesisHash proto \<or> sib_HasGenesisHash stb1
                          then upd_header (\<lambda>h. h\<lparr>th_GenesisHash := bh_GenesisHash bh\<rparr>) stb1 else stb1)
              in (Inr (te_GetTxID te (stb_Txn stb2)), stb2))"

section \<open>Lemmas\<close>

lemma upd_header_simps [simp]:
  "stb_header (upd_header f stb) = f (stb_header stb)"
  "stb_Txn (upd_header f stb) = (stb_Txn stb)\<lparr>txn_Header := f (stb_header stb)\<rparr>"
  "sib_HasGenesisID (upd_header f stb) = sib_HasGenesisID stb"
  "sib_HasGenesisHash (upd_header f stb) = sib_HasGenesisHash stb"
  "sad_ApplyData (sib_Txn (upd_header f stb)) = sad_ApplyData (sib_Txn stb)"
  by (simp_all add: upd_header_def stb_Txn_def Let_def)

text \<open>The header with the genesis fields that the flags and the protocol ask for.\<close>

definition restored_header :: "bool \<Rightarrow> BlockHeader \<Rightarrow> SignedTxnInBlock \<Rightarrow> TxnHeader" where
  "restored_header with_hash bh stb =
     (stb_header stb)\<lparr>th_GenesisID := (if sib_HasGenesisID stb then bh_GenesisID bh else ''''),
                      th_GenesisHash := (if with_hash then bh_GenesisHash bh else zero_Digest)\<rparr>"

lemma DecodeTxnId_success:
  assumes "DecodeTxnId te bh stb = (Inr txid, stb')" "te_Consensus te (bh_CurrentProtocol bh) = Some proto"
    and "cp_SupportSignedTxnInBlock proto"
  shows "stb_Txn stb' = (stb_Txn stb)\<lparr>txn_Header :=
      restored_header (cp_RequireGenesisHash proto \<or> sib_HasGenesisHash stb) bh stb\<rparr>"
    "txid = te_GetTxID te (stb_Txn stb')" "th_GenesisID (stb_header stb) = ''''"
    "th_GenesisHash (stb_header stb) = zero_Digest" "\<not> (cp_RequireGenesisHash proto \<and> sib_HasGenesisHash stb)"
    "sad_ApplyData (sib_Txn stb') = sad_ApplyData (sib_Txn stb)"
  using assms by (auto simp: DecodeTxnId_def Let_def restored_header_def split: if_splits)

section \<open>Properties\<close>

definition demo_te :: txid_env where
  "demo_te = \<lparr>te_Consensus = (\<lambda>p. if p = ''future'' then Some \<lparr>cp_SupportSignedTxnInBlock = True, cp_RequireGenesisHash = True\<rparr> else None),
     te_GetTxID = (\<lambda>t. ''TX-'' @ th_GenesisID (txn_Header t)), te_digest_string = (\<lambda>d. ''digest'')\<rparr>"

definition demo_stb :: SignedTxnInBlock where
  "demo_stb = upd_header (\<lambda>h. h\<lparr>th_GenesisID := '''', th_GenesisHash := zero_Digest\<rparr>) (demo_stib True)"

definition demo_future :: BlockHeader where
  "demo_future = demo_bh\<lparr>bh_CurrentProtocol := ''future'', bh_GenesisHash := replicate 32 7\<rparr>"


end
