(* ===== verification/Serving.thy ===== *)
theory Serving
  imports Httpsrv "HOL-Library.Sublist"
begin

text \<open>
  How a server of \<open>internal/httpsrv\<close> treats a request: the access log (\<open>logging.go\<close>), the authentication around the
  handlers, the handlers themselves, and the goroutine that listens (\<open>algod.go\<close>, \<open>indexer.go\<close>). The web framework is a
  parameter: its router, its error handler and its middlewares \<open>Recover\<close>, \<open>CORS\<close>, \<open>Gzip\<close> and \<open>RateLimiter\<close>. What the
  results need of it is the locale \<open>web_framework\<close>.
\<close>

section \<open>Exchanges\<close>

text \<open>One line of the access log.\<close>

record log_entry =
  le_msg :: string
  le_ip :: string
  le_method :: string
  le_status :: int
  le_ua :: string
  le_reqMs :: int
  le_bytes :: int
  le_path :: string

text \<open>The context of the framework: request and response, the clock, and the log that was written.\<close>

record exchange =
  ex_rq :: request
  ex_status :: int
  ex_size :: int
  ex_clock :: instant
  ex_log :: "log_entry list"

type_synonym handler_fn = "exchange \<Rightarrow> (goerror option \<times> exchange) go"

section \<open>The access log\<close>

record loggerMiddleware =
  lm_msg :: string

definition MakeLogger :: "string \<Rightarrow> loggerMiddleware" where
  "MakeLogger msg = \<lparr>lm_msg = msg\<rparr>"

text \<open>\<open>Duration.Milliseconds\<close> truncates towards zero.\<close>

definition Milliseconds :: "duration \<Rightarrow> int" where
  "Milliseconds d = (if d < 0 then - ((- d) div 1000000) else d div 1000000)"

text \<open>
  The middleware: an error of the inner handlers is given to the framework, which answers it, before the line is
  written, and is returned too. The request is read afterwards.
\<close>

definition log_handler :: "loggerMiddleware \<Rightarrow> (goerror \<Rightarrow> exchange \<Rightarrow> exchange) \<Rightarrow> handler_fn \<Rightarrow> handler_fn" where
  "log_handler logger ctxError next ctx =
     (let start = ex_clock ctx in
      go_bind (next ctx) (\<lambda>(err, ctx1).
        let ctx2 = (case err of Some e \<Rightarrow> ctxError e ctx1 | None \<Rightarrow> ctx1);
            entry = \<lparr>le_msg = lm_msg logger, le_ip = rq_RealIP (ex_rq ctx2), le_method = rq_Method (ex_rq ctx2),
                     le_status = ex_status ctx2, le_ua = rq_Header (ex_rq ctx2) ''User-Agent'',
                     le_reqMs = Milliseconds (ex_clock ctx2 - start), le_bytes = ex_size ctx2,
                     le_path = rq_Path (ex_rq ctx2)\<rparr>
        in Ret (err, ctx2\<lparr>ex_log := ex_log ctx2 @ [entry]\<rparr>)))"

section \<open>The chain\<close>

record serve_env =
  sn_middleware :: "middleware \<Rightarrow> handler_fn \<Rightarrow> handler_fn"
  sn_Error :: "goerror \<Rightarrow> exchange \<Rightarrow> exchange"
  sn_HTTPError :: "int \<Rightarrow> string \<Rightarrow> goerror"
  sn_NotFound :: handler_fn

fun server_wrap :: "serve_env \<Rightarrow> middleware \<Rightarrow> handler_fn \<Rightarrow> handler_fn" where
  "server_wrap sn (Logger msg) = log_handler (MakeLogger msg) (sn_Error sn)"
| "server_wrap sn m = sn_middleware sn m"

definition auth_wrap :: "serve_env \<Rightarrow> authMiddleware \<Rightarrow> handler_fn \<Rightarrow> handler_fn" where
  "auth_wrap sn auth next ctx =
     (case auth_handler auth (ex_rq ctx) of (ok, rq') \<Rightarrow>
        let ctx' = ctx\<lparr>ex_rq := rq'\<rparr>
        in if ok then next ctx' else Ret (Some (sn_HTTPError sn 401 ''Invalid API Token''), ctx'))"

text \<open>
  The request of a client, with the route that the router found for it. The middleware that was added first is the
  outermost one. The second argument is what the handlers do.
\<close>

definition serve :: "serve_env \<Rightarrow> (handler \<Rightarrow> handler_fn) \<Rightarrow> server \<Rightarrow> route option \<Rightarrow> handler_fn" where
  "serve sn impl srv found =
     foldr (server_wrap sn) (sv_use srv)
       (case found of
          None \<Rightarrow> sn_NotFound sn
        | Some rt \<Rightarrow> foldr (auth_wrap sn) (rt_middleware rt) (impl (rt_handler rt)))"

text \<open>
  The handlers of the program: each writes one reply, and only \<open>defaultHandler\<close> returns an error with it. What
  they get from the cluster, the size of a body and the time they take are arguments.
\<close>

record api =
  ap_wait :: "u64 \<Rightarrow> models_NodeStatus option \<times> goerror option"
  ap_getBlock :: "u64 \<Rightarrow> bool \<Rightarrow> BlockWrap option \<times> goerror option \<times> goerror option"
  ap_default :: "request \<Rightarrow> reply \<times> goerror option"
  ap_lower :: "string \<Rightarrow> string"
  ap_size :: "body \<Rightarrow> int"
  ap_took :: "request \<Rightarrow> duration"

fun handler_reply :: "api \<Rightarrow> handler \<Rightarrow> request \<Rightarrow> reply \<times> goerror option" where
  "handler_reply si WaitHandler rq = (waitHandler (ap_wait si) rq, None)"
| "handler_reply si BlockHandlerWrap rq = (blockHandlerWrap (ap_lower si) (ap_getBlock si) rq, None)"
| "handler_reply si BlockIdxHandlerWrap rq = (blockIdxHandlerWrap (ap_getBlock si) rq, None)"
| "handler_reply si DefaultHandler rq = ap_default si rq"

definition run_handler :: "api \<Rightarrow> handler \<Rightarrow> handler_fn" where
  "run_handler si h ctx =
     (case handler_reply si h (ex_rq ctx) of (rep, err) \<Rightarrow>
        Ret (err, ctx\<lparr>ex_status := rp_status rep, ex_size := ap_size si (rp_body rep),
                      ex_clock := ex_clock ctx + ap_took si (ex_rq ctx)\<rparr>))"

section \<open>Listening\<close>

text \<open>
  The goroutine of a server, once \<open>ListenAndServe\<close> has returned with an error: the lines that it logs, and whether it cancels the
  context of the program, which it always does.
\<close>

definition listen :: "goerror \<Rightarrow> goerror \<Rightarrow> server \<Rightarrow> string list \<times> bool" where
  "listen ErrServerClosed err s =
     (if err \<noteq> ErrServerClosed then [''Error listening on '' @ sv_Addr s] else [], True)"

section \<open>What is asked of the framework\<close>

text \<open>
  A handler that does not write to the access log; two handlers that agree on every exchange with a given
  request.
\<close>

definition no_log :: "handler_fn \<Rightarrow> bool" where
  "no_log h \<longleftrightarrow> (\<forall>ctx err ctx'. h ctx = Ret (err, ctx') \<longrightarrow> ex_log ctx' = ex_log ctx)"

definition agree :: "request \<Rightarrow> handler_fn \<Rightarrow> handler_fn \<Rightarrow> bool" where
  "agree rq h h' \<longleftrightarrow> (\<forall>ctx. ex_rq ctx = rq \<longrightarrow> h ctx = h' ctx)"

text \<open>
  The middlewares of the framework write no line of the access log and hand the request on as it came, if
  they hand it on; \<open>Recover\<close> ends every panic; errors and unknown routes are answered without a panic and without a line.
\<close>

locale web_framework =
  fixes sn :: serve_env
  assumes middleware_no_log: "no_log h \<Longrightarrow> no_log (sn_middleware sn m h)"
    and middleware_agree: "agree rq h h' \<Longrightarrow> agree rq (sn_middleware sn m h) (sn_middleware sn m h')"
    and Recover_returns: "\<exists>r. sn_middleware sn Recover h ctx = Ret r"
    and Error_no_log: "ex_log (sn_Error sn e ctx) = ex_log ctx"
    and NotFound_no_log: "no_log (sn_NotFound sn)"
begin

lemma foldr_no_log: "no_log h \<Longrightarrow> no_log (foldr (sn_middleware sn) ms h)"
  by (induction ms) (auto intro: middleware_no_log)

lemma foldr_agree: "agree rq h h' \<Longrightarrow> agree rq (foldr (sn_middleware sn) ms h) (foldr (sn_middleware sn) ms h')"
  by (induction ms) (auto intro: middleware_agree)

lemma auth_wrap_no_log: "no_log h \<Longrightarrow> no_log (auth_wrap sn auth h)"
  by (fastforce simp: no_log_def auth_wrap_def Let_def split: prod.splits if_splits)

lemma auth_no_log: "no_log h \<Longrightarrow> no_log (foldr (auth_wrap sn) as h)"
  by (induction as) (auto intro: auth_wrap_no_log)

end

lemma auth_wrap_agree: "\<not> fst (auth_handler auth rq) \<Longrightarrow> agree rq (auth_wrap sn auth h) (auth_wrap sn auth h')"
  by (cases "auth_handler auth rq") (simp add: agree_def auth_wrap_def)

lemma run_handler_no_log: "no_log (run_handler si h)"
  by (auto simp: no_log_def run_handler_def split: prod.splits)

lemma log_handler_agree: "agree rq h h' \<Longrightarrow> agree rq (log_handler l e h) (log_handler l e h')"
  by (simp add: agree_def log_handler_def)

text \<open>
  A framework that fulfils this: panics become errors, a preflight request is answered by \<open>CORS\<close>, an error is answered by
  its status, and the limiter lets everything pass.
\<close>

definition plain_web :: serve_env where
  "plain_web = \<lparr>
     sn_middleware = (\<lambda>m h ctx.
       case m of
         Recover \<Rightarrow> (case h ctx of Panic p \<Rightarrow> Ret (Some (new_error ''panic''), ctx) | Ret r \<Rightarrow> Ret r)
       | CORS \<Rightarrow> if rq_Method (ex_rq ctx) = ''OPTIONS'' then Ret (None, ctx\<lparr>ex_status := 204\<rparr>) else h ctx
       | _ \<Rightarrow> h ctx),
     sn_Error = (\<lambda>e ctx. ctx\<lparr>ex_status := (if e = new_error ''Invalid API Token'' then 401 else 500)\<rparr>),
     sn_HTTPError = (\<lambda>status msg. new_error msg),
     sn_NotFound = (\<lambda>ctx. Ret (Some (new_error ''Not Found''), ctx))\<rparr>"

interpretation plain: web_framework plain_web
  by unfold_locales
    (auto simp: plain_web_def no_log_def agree_def split: middleware.splits go.splits if_splits)

section \<open>Properties\<close>

text \<open>The token a request presents, and the servers of the program with their name, header and tokens.\<close>

definition presented_token :: "string \<Rightarrow> request \<Rightarrow> string" where
  "presented_token header rq =
     (if rq_Param rq ''token'' \<noteq> '''' then rq_Param rq ''token'' else header_token (MakeAuth header []) rq)"

lemma auth_handler_passes:
  "fst (auth_handler (MakeAuth header tokens) rq) \<longleftrightarrow> rq_Method rq = ''OPTIONS'' \<or> presented_token header rq \<in> set tokens"
proof -
  have "list_ex (\<lambda>t. bytes_of x = t) (map bytes_of tokens) \<longleftrightarrow> x \<in> set tokens" for x
    by (auto simp: list_ex_iff bytes_of_inj)
  then show ?thesis
    by (simp add: auth_handler_def presented_token_def header_token_def MakeAuth_def Let_def)
qed

definition is_server :: "AlgodCfg \<Rightarrow> IdxCfg \<Rightarrow> string \<Rightarrow> string \<Rightarrow> string list \<Rightarrow> server \<Rightarrow> bool" where
  "is_server acfg icfg name header tokens srv \<longleftrightarrow>
     NewAlgodProxy acfg = Ret srv \<and> name = ''Algod API'' \<and> header = ''X-Algo-API-Token'' \<and> tokens = al_Tokens acfg \<or>
     NewIndexerProxy icfg = Ret srv \<and> name = ''Indexer API'' \<and> header = ''X-Indexer-API-Token'' \<and> tokens = ix_Tokens icfg"

text \<open>The middlewares of both servers: the logger is the outermost, then \<open>Recover\<close>.\<close>

lemma server_uses:
  assumes "is_server acfg icfg name header tokens srv"
  shows "\<exists>ms. \<forall>impl found. serve sn impl srv found = log_handler (MakeLogger name) (sn_Error sn)
    (sn_middleware sn Recover (foldr (sn_middleware sn) ms
      (case found of None \<Rightarrow> sn_NotFound sn | Some rt \<Rightarrow> foldr (auth_wrap sn) (rt_middleware rt) (impl (rt_handler rt)))))"
proof -
  obtain limit where "sv_use srv = server_middleware name limit"
    using assms by (auto simp: is_server_def NewAlgodProxy_def NewIndexerProxy_def new_server_def Let_def split: option.splits)
  then show ?thesis
    by (intro exI[of _ "[CORS, Gzip] @ (if limit > 0 then [RateLimiter limit] else [])"]) (simp add: serve_def server_middleware_def)
qed

lemma is_server_route:
  assumes "is_server acfg icfg name header tokens srv" "rt \<in> set (sv_routes srv)"
  shows "rt_middleware rt = (if tokens = [] \<or> rt_pattern rt = ''/health'' then [] else [MakeAuth header tokens])"
  using assms
  by (auto simp: is_server_def NewAlgodProxy_def NewIndexerProxy_def new_server_def RegisterAlgodHandlers_def
      RegisterIdxHandlers_def mk_route_def Let_def split: option.splits)


definition demo_exchange :: exchange where
  "demo_exchange = \<lparr>ex_rq = demo_get ''5'', ex_status = 200, ex_size = 0, ex_clock = 0, ex_log = []\<rparr>"

definition demo_acfg_tokens :: AlgodCfg where
  "demo_acfg_tokens = (the (cfg_Algod defaultConfig))\<lparr>al_Tokens := [''t'']\<rparr>"

definition demo_route :: route where
  "demo_route = mk_route ''GET'' ''/v2/blocks/:round'' BlockHandlerWrap [MakeAuth ''X-Algo-API-Token'' [''t'']]"

lemma demo_server: "\<exists>srv. is_server demo_acfg_tokens icfg ''Algod API'' ''X-Algo-API-Token'' [''t''] srv \<and> demo_route \<in> set (sv_routes srv)"
  by (auto simp: demo_route_def is_server_def demo_acfg_tokens_def NewAlgodProxy_def new_server_def defaultConfig_def RegisterAlgodHandlers_def Let_def)


text \<open>
  C34. Every request to a server that its goroutine serves is answered without a panic and leaves exactly one
  line in the access log, whatever the handlers do: with the name of the server, the method, the path, the time taken,
  and the status and size that were sent, also when the handlers panic or return an error.
\<close>

theorem request_logged:
  assumes "web_framework sn" "is_server acfg icfg name header tokens srv" "\<forall>h. no_log (impl h)"
  shows "\<exists>err ctx' entry. serve sn impl srv found ctx = Ret (err, ctx') \<and> ex_log ctx' = ex_log ctx @ [entry] \<and>
    le_msg entry = name \<and> le_status entry = ex_status ctx' \<and> le_bytes entry = ex_size ctx' \<and>
    le_method entry = rq_Method (ex_rq ctx') \<and> le_path entry = rq_Path (ex_rq ctx') \<and>
    le_ip entry = rq_RealIP (ex_rq ctx') \<and> le_reqMs entry = Milliseconds (ex_clock ctx' - ex_clock ctx)"
proof -
  let ?h = "case found of None \<Rightarrow> sn_NotFound sn | Some rt \<Rightarrow> foldr (auth_wrap sn) (rt_middleware rt) (impl (rt_handler rt))"
  obtain ms where s: "serve sn impl srv found = log_handler (MakeLogger name) (sn_Error sn)
      (sn_middleware sn Recover (foldr (sn_middleware sn) ms ?h))"
    using server_uses[OF assms(2), of sn] by blast
  let ?rec = "sn_middleware sn Recover (foldr (sn_middleware sn) ms ?h)"
  have "no_log ?h"
    using assms(3) by (auto split: option.splits
        intro: web_framework.NotFound_no_log[OF assms(1)] web_framework.auth_no_log[OF assms(1)])
  then have n: "no_log ?rec"
    by (intro web_framework.middleware_no_log[OF assms(1)] web_framework.foldr_no_log[OF assms(1)])
  obtain res where "?rec ctx = Ret res" using web_framework.Recover_returns[OF assms(1)] by blast
  then obtain err ctx1 where r: "?rec ctx = Ret (err, ctx1)" by (cases res) simp
  with n have l: "ex_log ctx1 = ex_log ctx" by (simp add: no_log_def)
  define ctx2 where "ctx2 = (case err of Some e \<Rightarrow> sn_Error sn e ctx1 | None \<Rightarrow> ctx1)"
  have "ex_log ctx2 = ex_log ctx" using l web_framework.Error_no_log[OF assms(1)] by (cases err) (simp_all add: ctx2_def)
  then show ?thesis by (simp add: s log_handler_def r Let_def MakeLogger_def flip: ctx2_def)
qed
text \<open>A handler that panics.\<close>

theorem request_logged_witness:
  "\<exists>srv err ctx' entry. is_server demo_acfg_tokens (the (cfg_Indexer defaultConfig)) ''Algod API'' ''X-Algo-API-Token'' [''t''] srv \<and>
     serve plain_web (\<lambda>h ctx. Panic NilDeref) srv (Some (mk_route ''GET'' ''/health'' DefaultHandler [])) demo_exchange = Ret (err, ctx') \<and>
     ex_log ctx' = [entry] \<and>
     le_msg entry = ''Algod API'' \<and> le_method entry = rq_Method (ex_rq ctx')"
proof -
  obtain srv where srv: "is_server demo_acfg_tokens (the (cfg_Indexer defaultConfig)) ''Algod API'' ''X-Algo-API-Token'' [''t''] srv"
    using demo_server by blast
  have "\<forall>h. no_log (\<lambda>ctx. Panic NilDeref)" by (simp add: no_log_def)
  from request_logged[OF plain.web_framework_axioms srv, of "\<lambda>h ctx. Panic NilDeref"
      "Some (mk_route ''GET'' ''/health'' DefaultHandler [])" demo_exchange, OF this] srv
  show ?thesis by (auto simp: demo_exchange_def)
qed

section \<open>Listening and the routes\<close>

text \<open>
  No route declares the parameter \<open>token\<close> that the authentication asks for, so that tokens in the path are
  never looked at: a request below \<open>/urlAuth\<close> is one of the default routes, which need a header.
\<close>

lemma no_token_routes:
  assumes "is_server acfg icfg name header tokens srv" "rt \<in> set (sv_routes srv)"
  shows "\<not> sublist '':token'' (rt_pattern rt)"
proof -
  have "rt_pattern rt \<in> {''/v2/status/wait-for-block-after/:round'', ''/v2/blocks/:round'',
      ''/v2/blocks/:round/transactions'', ''/*'', ''/health''}"
    using assms by (auto simp: is_server_def NewAlgodProxy_def NewIndexerProxy_def new_server_def RegisterAlgodHandlers_def
        RegisterIdxHandlers_def mk_route_def Let_def split: option.splits)
  then show ?thesis by (elim insertE emptyE) (simp_all add: sublist_code)
qed
end
