(* ===== verification/Startup.thy ===== *)
theory Startup
  imports Node_Properties Serving
begin

text \<open>
  \<open>cmd/algovnode\<close>: the choice of the log format and level (\<open>logging.go\<close>) and the start of the
  program (\<open>main.go\<close>) with \<open>Start\<close> of \<open>internal/algod/node.go\<close>: load the configuration, build the caches and the
  cluster, start one goroutine per node and three for the cluster, and the servers; then its end, with
  \<open>WaitForFatal\<close> of \<open>internal/algod/cluster.go\<close>. The levels of the logging library, its
  \<open>ParseLevel\<close> and the constructor of the SDK's client are parameters.
\<close>

section \<open>Logging\<close>

datatype formatter = JSONFormatter | TextFormatter
datatype log_output = Stdout | Stderr

record 'v logger =
  lo_formatter :: formatter
  lo_output :: log_output
  lo_level :: 'v
  lo_errors :: "string list"

definition logging_init :: "bool \<Rightarrow> 'v \<Rightarrow> 'v logger" where
  "logging_init isRunningInDockerContainer debugLevel =
     (if isRunningInDockerContainer
      then \<lparr>lo_formatter = JSONFormatter, lo_output = Stdout, lo_level = debugLevel, lo_errors = []\<rparr>
      else \<lparr>lo_formatter = TextFormatter, lo_output = Stderr, lo_level = debugLevel, lo_errors = []\<rparr>)"

definition setLogging ::
  "(string \<Rightarrow> string) \<Rightarrow> (string \<Rightarrow> goerror + 'v) \<Rightarrow> LoggingCfg \<Rightarrow> 'v logger \<Rightarrow> 'v logger" where
  "setLogging lower parseLevel cfg l =
     (let l1 = (if ToLower lower (lg_Format cfg) = ''txt''
                then l\<lparr>lo_formatter := TextFormatter, lo_output := Stderr\<rparr> else l)
      in case parseLevel (lg_Level cfg) of
           Inr level \<Rightarrow> l1\<lparr>lo_level := level\<rparr>
         | Inl e \<Rightarrow> l1\<lparr>lo_errors := lo_errors l1 @ [''Invalid debug level'']\<rparr>)"

section \<open>The HTTP client\<close>

text \<open>
  \<open>init\<close> of \<open>cluster.go\<close> sets the limits of the default transport; \<open>Start\<close> makes the client of a node with a clone
  of it, on which it sets them again.
\<close>

record transport =
  tr_MaxIdleConns :: int
  tr_MaxConnsPerHost :: int
  tr_MaxIdleConnsPerHost :: int

definition transport_init :: "transport \<Rightarrow> transport" where
  "transport_init t = t\<lparr>tr_MaxIdleConns := 150, tr_MaxConnsPerHost := 150, tr_MaxIdleConnsPerHost := 150\<rparr>"

record http_client =
  hcl_Timeout :: duration
  hcl_Transport :: transport

definition node_client :: "transport \<Rightarrow> http_client" where
  "node_client DefaultTransport =
     \<lparr>hcl_Timeout = 10 * second,
      hcl_Transport = DefaultTransport\<lparr>tr_MaxIdleConns := 150, tr_MaxConnsPerHost := 150, tr_MaxIdleConnsPerHost := 150\<rparr>\<rparr>"

section \<open>Starting\<close>

text \<open>\<open>Start\<close>: the goroutine of the node runs unless the client cannot be made.\<close>

definition Start ::
  "(string \<Rightarrow> string \<Rightarrow> (string \<times> string) list \<Rightarrow> goerror option) \<Rightarrow> NodeCfg \<Rightarrow> goerror option" where
  "Start makeClient cfg =
     makeClient (nc_Address cfg) (nc_Token cfg)
       [(''Referer'', ''http://'' @ NODE_TAG), (''User-Agent'', NODE_TAG)]"

datatype goroutine =
    MainLoop nat | BroadcastListener | StateChangeMonitor | PrefetchMonitor | AlgodServer | IndexerServer

text \<open>The loop of \<open>NewCluster\<close> over the nodes and the three goroutines after it; the errors of \<open>addNode\<close> are dropped.\<close>

definition cluster_goroutines ::
  "(string \<Rightarrow> string \<Rightarrow> (string \<times> string) list \<Rightarrow> goerror option) \<Rightarrow> NodeCfg list \<Rightarrow> goroutine list" where
  "cluster_goroutines makeClient nodes =
     map MainLoop (filter (\<lambda>i. Start makeClient (nodes ! i) = None) [0..<length nodes])
       @ [BroadcastListener, StateChangeMonitor, PrefetchMonitor]"

record 'v start_env =
  se_fe :: "AlgoVNodeConfig file_env"
  se_cfgFile :: string
  se_lower :: "string \<Rightarrow> string"
  se_ParseLevel :: "string \<Rightarrow> goerror + 'v"
  se_makeClient :: "string \<Rightarrow> string \<Rightarrow> (string \<times> string) list \<Rightarrow> goerror option"
  se_now :: instant

record ('l, 'v) running =
  ru_log :: "'v logger"
  ru_cluster :: "'l NodeCluster"
  ru_algod :: server
  ru_indexer :: "server option"
  ru_goroutines :: "goroutine list"

text \<open>\<open>Inl\<close> is the early return with the error of the configuration.\<close>

definition main_start ::
  "'v start_env \<Rightarrow> 'l lru \<Rightarrow> 'v logger \<Rightarrow> (goerror + ('l, 'v) running) go" where
  "main_start se lru l =
     (case LoadConfig (se_fe se) (se_cfgFile se) of
        (cfg, Some e) \<Rightarrow> Ret (Inl e)
      | (cfg, None) \<Rightarrow>
          let l1 = setLogging (se_lower se) (se_ParseLevel se) (cfg_Logging cfg) l;
              cache = New lru
          in case cfg_Algod cfg of
               None \<Rightarrow> Panic NilDeref
             | Some acfg \<Rightarrow>
                 let cluster = NewCluster (se_now se) (Some cache) acfg in
                 go_bind (NewAlgodProxy acfg) (\<lambda>algodSrv.
                 go_bind
                   (case cfg_Indexer cfg of
                      None \<Rightarrow> Ret None
                    | Some icfg \<Rightarrow>
                        if ix_Enabled icfg then go_bind (NewIndexerProxy icfg) (\<lambda>srv. Ret (Some srv)) else Ret None)
                   (\<lambda>idxSrv.
                 Ret (Inr \<lparr>ru_log = l1, ru_cluster = cluster, ru_algod = algodSrv, ru_indexer = idxSrv,
                           ru_goroutines = cluster_goroutines (se_makeClient se) (al_Nodes acfg) @ [AlgodServer] @
                             (if idxSrv = None then [] else [IndexerServer])\<rparr>))))"

section \<open>Stopping\<close>

text \<open>
  \<open>WaitForFatal\<close>: the cases of its select that are ready, given whether the context is done and what
  was sent on the channel of fatal errors; with none it blocks.
\<close>

datatype stop_reason = CtxDone | FatalErr goerror

definition WaitForFatal :: "bool \<Rightarrow> goerror list \<Rightarrow> stop_reason list" where
  "WaitForFatal ctx_done fatalErr =
     (if ctx_done then [CtxDone] else []) @ (case fatalErr of [] \<Rightarrow> [] | err # _ \<Rightarrow> [FatalErr err])"

text \<open>The end of \<open>main\<close>: once the wait is over, the servers that are shut down, each with two seconds.\<close>

definition main_stop :: "bool \<Rightarrow> ('l, 'v) running \<Rightarrow> (server \<times> duration) list option" where
  "main_stop ctx_done ru =
     (if WaitForFatal ctx_done (cl_fatalErr (ru_cluster ru)) = [] then None
      else Some ((ru_algod ru, 2 * second) #
                 (case ru_indexer ru of None \<Rightarrow> [] | Some idxSrv \<Rightarrow> [(idxSrv, 2 * second)])))"

section \<open>Properties\<close>

text \<open>
  A node of another chain stops the program: \<open>boot\<close> sends the fatal error, and a \<open>main\<close> that waits in a cluster where it
  was sent shuts down every server it started.
\<close>

theorem genesis_mismatch_stops:
  assumes "s0 = with_cl (upd_node i (\<lambda>n. n\<lparr>nd_latestRound := 0\<rparr>)) (setState env i AnsBooting s)"
    and "en_ctx_err env (sy_w s0) = None" "en_GetGenesis env i (10 * second) s0 = (Inr g, s1)"
    and "cl_genesis (sy_cl s1) \<notin> {'''', g}"
  shows "\<exists>gs'. boot env i s = Some (Ret (False, en_fatal env (s1\<lparr>sy_cl := gs'\<rparr>))) \<and>
    cl_fatalErr gs' = cl_fatalErr (sy_cl s1) @ [genesis_mismatch] \<and>
    (ru_cluster ru = gs' \<longrightarrow> (\<exists>rest. main_stop False ru = Some ((ru_algod ru, 2 * second) # rest) \<and>
       set (map fst rest) = set_option (ru_indexer ru)))"
proof -
  let ?gs = "(sy_cl s1)\<lparr>cl_fatalErr := cl_fatalErr (sy_cl s1) @ [genesis_mismatch]\<rparr>"
  have "node_backoff env (genesis_try env i) 0 s0 '''' = Some (None, (s1, g))"
    unfolding node_backoff_def using assms(2,3) by (subst Backoff.simps) (simp add: genesis_try_def)
  moreover have "EnsureGenesis g (sy_cl s1) = (Some genesis_mismatch, sy_cl s1)"
    using assms(4) by (auto simp: EnsureGenesis_def genesis_mismatch_def)
  ultimately have "boot env i s = Some (Ret (False, en_fatal env (s1\<lparr>sy_cl := ?gs\<rparr>)))"
    using assms(1) by (simp add: boot_def Let_def run_ret_def)
  moreover have "\<exists>rest. main_stop False ru = Some ((ru_algod ru, 2 * second) # rest) \<and> set (map fst rest) = set_option (ru_indexer ru)"
    if "ru_cluster ru = ?gs"
    using that by (cases "cl_fatalErr (sy_cl s1)"; cases "ru_indexer ru") (simp_all add: main_stop_def WaitForFatal_def)
  ultimately show ?thesis by (intro exI[of _ ?gs]) simp
qed

text \<open>A server that cannot listen, or is closed, ends the program: its goroutine cancels the context, and \<open>main\<close> shuts down all servers.\<close>

lemma listen_stops:
  "main_stop (snd (listen ErrServerClosed err srv)) ru =
     Some ((ru_algod ru, 2 * second) # (case ru_indexer ru of None \<Rightarrow> [] | Some idxSrv \<Rightarrow> [(idxSrv, 2 * second)]))"
  by (simp add: main_stop_def WaitForFatal_def listen_def)

lemma new_server_Ret: "new_server http use routes = Ret srv \<Longrightarrow> sv_routes srv = routes \<and> http \<noteq> None"
  by (auto simp: new_server_def split: option.splits)

lemma LoadConfig_ok:
  assumes "LoadConfig fe f = (cfg, None)"
  shows "\<exists>a. cfg_Algod cfg = Some a \<and> al_Nodes a \<noteq> []"
  using assms by (auto simp: LoadConfig_def split: prod.splits option.splits if_splits)

lemma MainLoop_started:
  "MainLoop i \<in> set (cluster_goroutines mc nodes) \<longleftrightarrow> i < length nodes \<and> Start mc (nodes ! i) = None"
  by (auto simp: cluster_goroutines_def)

text \<open>What \<open>main\<close> does with an accepted configuration: it panics only for a missing HTTP section.\<close>

lemma main_start_accepted:
  assumes "LoadConfig (se_fe se) (se_cfgFile se) = (cfg, None)" "cfg_Algod cfg = Some acfg"
  shows "(case main_start se lru l of
      Panic p \<Rightarrow> al_Http acfg = None \<or> (\<exists>icfg. cfg_Indexer cfg = Some icfg \<and> ix_Enabled icfg \<and> ix_Http icfg = None)
    | Ret (Inl e) \<Rightarrow> False
    | Ret (Inr ru) \<Rightarrow> al_Http acfg \<noteq> None \<and> ru_cluster ru = NewCluster (se_now se) (Some (New lru)) acfg \<and>
        (ru_indexer ru \<noteq> None \<longleftrightarrow> (\<exists>icfg. cfg_Indexer cfg = Some icfg \<and> ix_Enabled icfg)) \<and>
        ru_goroutines ru = cluster_goroutines (se_makeClient se) (al_Nodes acfg) @ [AlgodServer] @
          (if ru_indexer ru = None then [] else [IndexerServer]))"
  using assms
  by (auto simp: main_start_def Let_def NewAlgodProxy_def NewIndexerProxy_def new_server_def
      split: option.splits)


definition demo_se :: "nat start_env" where
  "demo_se = \<lparr>se_fe = demo_fe, se_cfgFile = ''config.jsonc'', se_lower = id, se_ParseLevel = (\<lambda>s. Inl (new_error ''level'')),
     se_makeClient = (\<lambda>a t h. None), se_now = 0\<rparr>"

end
