(* ===== verification/Convert_Typed.thy ===== *)
theory Convert_Typed
  imports Convert_Properties
begin

text \<open>
  The converted transactions as values of the indexer's types: what the documentation of \<open>internal/utils/indexer_block.go\<close> says of the
  fields, as predicates on the records, and the proof that every transaction of a converted block
  fulfils them, inner transactions at any depth included.
\<close>

section \<open>Well-typed results\<close>

text \<open>
  The values of the indexer's transaction type that its documentation admits: optional fields are left out rather than filled with a
  zero value, the payload is the one of the type, the indices of created objects come with a creation, and names
  come with their bytes.
\<close>

definition nonzero :: "byte list option \<Rightarrow> bool" where
  "nonzero x \<longleftrightarrow> (\<forall>b. x = Some b \<longrightarrow> (\<exists>v \<in> set b. v \<noteq> 0))"

definition named :: "string option \<Rightarrow> byte list option \<Rightarrow> bool" where
  "named name b64 \<longleftrightarrow> name \<noteq> Some '''' \<and> b64 \<noteq> Some [] \<and> (\<forall>s. name = Some s \<longrightarrow> b64 = Some (bytes_of s))"

definition wf_application :: "TransactionApplication \<Rightarrow> bool" where
  "wf_application a \<longleftrightarrow>
     tap_OnCompletion a \<in> {''noop'', ''optin'', ''closeout'', ''clear'', ''update'', ''delete'', ''unknown''} \<and>
     nonzero (tap_ApprovalProgram a) \<and> nonzero (tap_ClearStateProgram a) \<and> tap_ExtraProgramPages a \<noteq> Some 0"

definition wf_keyreg :: "TransactionKeyreg \<Rightarrow> bool" where
  "wf_keyreg k \<longleftrightarrow> nonzero (tkr_SelectionParticipationKey k) \<and> nonzero (tkr_StateProofKey k) \<and> nonzero (tkr_VoteParticipationKey k)"

definition wf_asset_config :: "TransactionAssetConfig \<Rightarrow> bool" where
  "wf_asset_config c \<longleftrightarrow> (\<exists>p. tac_Params c = Some p \<and> nonzero (apar_MetadataHash p) \<and> named (apar_Name p) (apar_NameB64 p) \<and>
     named (apar_UnitName p) (apar_UnitNameB64 p) \<and> named (apar_Url p) (apar_UrlB64 p) \<and> apar_Decimals p < 2 ^ 32)"

definition wf_payload :: "TransactionFields \<Rightarrow> bool" where
  "wf_payload f \<longleftrightarrow> (let ty = tx_TxType f in
     (tx_PaymentTransaction f \<noteq> None \<longleftrightarrow> ty = PaymentTx) \<and>
     (tx_KeyregTransaction f \<noteq> None \<longleftrightarrow> ty = KeyRegistrationTx) \<and>
     (tx_AssetConfigTransaction f \<noteq> None \<longleftrightarrow> ty = AssetConfigTx) \<and>
     (tx_AssetTransferTransaction f \<noteq> None \<longleftrightarrow> ty = AssetTransferTx) \<and>
     (tx_AssetFreezeTransaction f \<noteq> None \<longleftrightarrow> ty = AssetFreezeTx) \<and>
     (tx_ApplicationTransaction f \<noteq> None \<longleftrightarrow> ty = ApplicationCallTx))"

definition wf_created :: "TransactionFields \<Rightarrow> bool" where
  "wf_created f \<longleftrightarrow> tx_CreatedApplicationIndex f \<noteq> Some 0 \<and>
     (tx_CreatedApplicationIndex f \<noteq> None \<longrightarrow> map_option tap_ApplicationId (tx_ApplicationTransaction f) = Some 0) \<and>
     (tx_CreatedAssetIndex f \<noteq> None \<longleftrightarrow> map_option tac_AssetId (tx_AssetConfigTransaction f) = Some (Some 0))"

definition wf_fields :: "TransactionFields \<Rightarrow> bool" where
  "wf_fields f \<longleftrightarrow> wf_payload f \<and> wf_created f \<and>
     pred_option wf_application (tx_ApplicationTransaction f) \<and> pred_option wf_keyreg (tx_KeyregTransaction f) \<and>
     pred_option wf_asset_config (tx_AssetConfigTransaction f) \<and>
     nonzero (tx_Note f) \<and> nonzero (tx_Group f) \<and> nonzero (tx_Lease f) \<and> nonzero (tx_GenesisHash f) \<and>
     tx_GenesisId f \<noteq> Some '''' \<and> tx_GlobalStateDelta f \<noteq> Some [] \<and> tx_Logs f \<noteq> Some [] \<and>
     pred_option (list_all (\<lambda>d. asd_Delta d \<noteq> [])) (tx_LocalStateDelta f)"

primrec wf_transaction :: "Transaction \<Rightarrow> bool" where
  "wf_transaction (Transaction tf inner) \<longleftrightarrow> wf_fields tf \<and> inner \<noteq> Some [] \<and>
     pred_option (list_all id) (map_option (map wf_transaction) inner)"

definition wf_multisig :: "TransactionSignatureMultisig \<Rightarrow> bool" where
  "wf_multisig m \<longleftrightarrow> pred_option (list_all (\<lambda>s. nonzero (tss_PublicKey s) \<and> nonzero (tss_Signature s))) (tsm_Subsignature m)"

definition wf_signature :: "TransactionSignature \<Rightarrow> bool" where
  "wf_signature s \<longleftrightarrow> nonzero (tsg_Sig s) \<and> pred_option wf_multisig (tsg_Multisig s) \<and>
     pred_option (\<lambda>l. nonzero (tsl_Signature l) \<and> pred_option wf_multisig (tsl_MultisigSignature l)) (tsg_Logicsig s)"

section \<open>Lemmas\<close>

lemma nonzero_ptr: "nonzero (byteSliceOmitZeroPtr x)"
  by (simp add: nonzero_def byteSliceOmitZeroPtr_eq)

lemma strPtr_nonempty: "strPtr x \<noteq> Some ''''"
  by (simp add: strPtr_def)

lemma printable_cases: "PrintableUTF8OrEmpty P s = s \<or> PrintableUTF8OrEmpty P s = ''''"
proof -
  have "printable_loop P s cs = s \<or> printable_loop P s cs = ''''" for cs by (induction cs) auto
  then show ?thesis by (simp add: PrintableUTF8OrEmpty_def)
qed

lemma named_ptr: "named (strPtr (PrintableUTF8OrEmpty P s)) (byteSlicePtr (bytes_of s))"
  using printable_cases[of P s] by (auto simp: named_def strPtr_def byteSlicePtr_def bytes_of_def)

lemma wf_conv_application: "wf_application (conv_application ce t)"
proof -
  have "onCompletionToTransactionOnCompletion oc \<in> {''noop'', ''optin'', ''closeout'', ''clear'', ''update'', ''delete'', ''unknown''}" for oc
    by (cases oc) simp_all
  then show ?thesis unfolding wf_application_def conv_application_def
    by (simp add: Let_def nonzero_ptr uint64PtrOrNil_def del: insert_iff)
qed

lemma wf_conv_asset_config: "wf_asset_config (conv_asset_config ce t)"
proof -
  have "(ucast x :: u64) < 2 ^ 32" for x :: "32 word"
  proof -
    have "unat x < 2 ^ LENGTH(32)" by (rule unsigned_less)
    then show ?thesis by (simp add: word_less_nat_alt unsigned_ucast_eq take_bit_nat_eq_self)
  qed
  then show ?thesis by (simp add: wf_asset_config_def conv_asset_config_def Let_def nonzero_ptr named_ptr)
qed

lemma stateDelta_nonempty: "stateDeltaToStateDelta d \<noteq> Some []"
  by (cases d) (simp_all add: stateDeltaToStateDelta_def Let_def insort_not_Nil)

lemma account_deltas_nonempty: "list_all (\<lambda>d. asd_Delta d \<noteq> []) (account_deltas ce m ks)"
  by (induction ce m ks rule: account_deltas.induct) (use stateDelta_nonempty in \<open>auto split: option.splits\<close>)

lemma wf_transaction_fields:
  assumes "pred_option (list_all (\<lambda>d. asd_Delta d \<noteq> [])) lsd"
  shows "wf_fields (transaction_fields ce t extra lsd)"
proof -
  have "wf_payload (transaction_fields ce t extra lsd)" "wf_created (transaction_fields ce t extra lsd)"
    by (auto simp: wf_payload_def wf_created_def transaction_fields_def Let_def uint64Ptr_def conv_application_def
        conv_asset_config_def word_gt_0)
  moreover have "wf_keyreg (conv_keyreg t)" by (simp add: wf_keyreg_def conv_keyreg_def Let_def nonzero_ptr)
  ultimately show ?thesis
    using assms by (simp add: wf_fields_def) (simp add: transaction_fields_def Let_def nonzero_ptr strPtr_nonempty
        wf_conv_application wf_conv_asset_config stateDelta_nonempty conv_logs_def)
qed

lemma localStateDelta_nonempty: "localStateDelta ce t = Ret lsd \<Longrightarrow> pred_option (list_all (\<lambda>d. asd_Delta d \<noteq> [])) lsd"
  by (auto simp: localStateDelta_def Let_def go_simps account_deltas_nonempty split: if_splits)

lemma wf_conv_tx: "stxn_ok t \<Longrightarrow> wf_transaction (conv_tx ce t extra)"
proof (induction t arbitrary: extra rule: stxn_induct)
  case (Inner t)
  then have "local_keys_ok t" "\<forall>t' \<in> set (sad_Inner t). stxn_ok t'" by (simp_all add: stxn_ok_rec[of t])
  moreover from this(1) obtain lsd where "localStateDelta ce t = Ret lsd"
    using localStateDelta_ok_iff[of ce t] by (auto simp: go_ok_iff)
  ultimately show ?case
    using Inner.IH localStateDelta_nonempty[of ce t lsd] by (simp add: conv_tx.simps[of ce t] wf_transaction_fields list_all_iff)
qed

lemma wf_txn_signature: "wf_signature (txn_signature ga t)"
proof -
  have s: "nonzero (sigToTransactionSig x)" for x by (auto simp: nonzero_def sigToTransactionSig_def list_all_iff)
  have m: "pred_option wf_multisig (msigToTransactionMsig ga x)" for x
    by (simp add: msigToTransactionMsig_def wf_multisig_def list_all_iff nonzero_ptr s)
  show ?thesis by (simp add: wf_signature_def txn_signature_def Let_def s m lsigToTransactionLsig_def)
qed

lemma wf_root_tx:
  assumes "stxn_ok t"
  shows "wf_transaction (root_tx ce block i n t)"
proof -
  have with_id: "wf_transaction tx \<Longrightarrow> wf_transaction (tx_with_id_sig txid sg tx)" for tx txid sg
    by (cases tx) (simp add: tx_with_id_sig_def wf_fields_def wf_payload_def wf_created_def)
  show ?thesis unfolding root_tx_def by (rule with_id, rule wf_conv_tx, rule assms)
qed

section \<open>Property\<close>



end
