(* ===== verification/Indexer_Types.thy ===== *)
theory Indexer_Types
  imports Indexer_Block
begin

text \<open>
  The remaining types of \<open>internal/utils/indexer_block.go\<close>: the entities, responses and query parameters of the indexer API
  that the conversion of blocks does not fill in. The file is the data model of that API as a
  whole; no function of the program makes or reads a value of these types, so there are definitions here and no lemmas. The conventions are those of
  theory \<open>Indexer_Block\<close>: a pointer is an \<open>option\<close>, a slice a list, a Go type that renames another is a synonym of
  it (\<open>Address\<close>, a string here, is \<open>AddressParam\<close>, because \<open>Address\<close> is the type of \<open>go-algorand\<close>). A
  value of \<open>interface{}\<close> is of the type variable \<open>'v\<close>, and a Go map is a partial function.
\<close>

section \<open>Entities\<close>

record TealValue =
  tva_Bytes :: string
  tva_Type :: u64
  tva_Uint :: u64

record TealKeyValue =
  tkv_Key :: string
  tkv_Value :: TealValue

type_synonym TealKeyValueStore = "TealKeyValue list"

record ApplicationStateSchema =
  ass_NumByteSlice :: u64
  ass_NumUint :: u64

record ApplicationLocalState =
  als_ClosedOutAtRound :: "u64 option"
  als_Deleted :: "bool option"
  als_Id :: u64
  als_KeyValue :: "TealKeyValueStore option"
  als_OptedInAtRound :: "u64 option"
  als_Schema :: ApplicationStateSchema

record AssetHolding =
  aho_Amount :: u64
  aho_AssetId :: u64
  aho_Deleted :: "bool option"
  aho_IsFrozen :: bool
  aho_OptedInAtRound :: "u64 option"
  aho_OptedOutAtRound :: "u64 option"

record ApplicationParams =
  apa_ApprovalProgram :: "byte list"
  apa_ClearStateProgram :: "byte list"
  apa_Creator :: "string option"
  apa_ExtraProgramPages :: "u64 option"
  apa_GlobalState :: "TealKeyValueStore option"
  apa_GlobalStateSchema :: "ApplicationStateSchema option"
  apa_LocalStateSchema :: "ApplicationStateSchema option"

record Application =
  app_CreatedAtRound :: "u64 option"
  app_Deleted :: "bool option"
  app_DeletedAtRound :: "u64 option"
  app_Id :: u64
  app_Params :: ApplicationParams

record Asset =
  asse_CreatedAtRound :: "u64 option"
  asse_Deleted :: "bool option"
  asse_DestroyedAtRound :: "u64 option"
  asse_Index :: u64
  asse_Params :: AssetParams

record AccountParticipation =
  apart_SelectionParticipationKey :: "byte list"
  apart_StateProofKey :: "byte list option"
  apart_VoteFirstValid :: u64
  apart_VoteKeyDilution :: u64
  apart_VoteLastValid :: u64
  apart_VoteParticipationKey :: "byte list"

record Account =
  acc_Address :: string
  acc_Amount :: u64
  acc_AmountWithoutPendingRewards :: u64
  acc_AppsLocalState :: "ApplicationLocalState list option"
  acc_AppsTotalExtraPages :: "u64 option"
  acc_AppsTotalSchema :: "ApplicationStateSchema option"
  acc_Assets :: "AssetHolding list option"
  acc_AuthAddr :: "string option"
  acc_ClosedAtRound :: "u64 option"
  acc_CreatedApps :: "Application list option"
  acc_CreatedAssets :: "Asset list option"
  acc_CreatedAtRound :: "u64 option"
  acc_Deleted :: "bool option"
  acc_Participation :: "AccountParticipation option"
  acc_PendingRewards :: u64
  acc_RewardBase :: "u64 option"
  acc_Rewards :: u64
  acc_Round :: u64
  acc_SigType :: "string option"
  acc_Status :: string
  acc_TotalAppsOptedIn :: u64
  acc_TotalAssetsOptedIn :: u64
  acc_TotalCreatedApps :: u64
  acc_TotalCreatedAssets :: u64

record ApplicationLogData =
  ald_Logs :: "byte list list"
  ald_Txid :: string

type_synonym Hashtype = string

record 'v HealthCheck =
  hch_Data :: "(string \<rightharpoonup> 'v) option"
  hch_DbAvailable :: bool
  hch_Errors :: "string list option"
  hch_IsMigrating :: bool
  hch_Message :: string
  hch_Round :: u64
  hch_Version :: string

record MiniAssetHolding =
  mah_Address :: string
  mah_Amount :: u64
  mah_Deleted :: "bool option"
  mah_IsFrozen :: bool
  mah_OptedInAtRound :: "u64 option"
  mah_OptedOutAtRound :: "u64 option"

section \<open>Names of parameters\<close>

type_synonym AccountId = string

type_synonym AddressParam = string

type_synonym AddressRole = string

type_synonym AfterTime = instant

type_synonym ApplicationId = u64

type_synonym AssetId = u64

type_synonym AuthAddr = string

type_synonym BeforeTime = instant

type_synonym CurrencyGreaterThan = u64

type_synonym CurrencyLessThan = u64

type_synonym Exclude = "string list"

type_synonym ExcludeCloseTo = bool

type_synonym IncludeAll = bool

type_synonym Limit = u64

type_synonym MaxRound = u64

type_synonym MinRound = u64

type_synonym Next = string

type_synonym NotePrefix = string

type_synonym RekeyTo = bool

type_synonym Round = u64

type_synonym RoundNumber = u64

type_synonym SenderAddress = string

type_synonym SigType = string

type_synonym TxType = string

type_synonym Txid = string

section \<open>Responses\<close>

record AccountResponse =
  are_Account :: Account
  are_CurrentRound :: u64

record AccountsResponse =
  ares_Accounts :: "Account list"
  ares_CurrentRound :: u64
  ares_NextToken :: "string option"

record ApplicationLocalStatesResponse =
  alsr_AppsLocalStates :: "ApplicationLocalState list"
  alsr_CurrentRound :: u64
  alsr_NextToken :: "string option"

record ApplicationLogsResponse =
  alr_ApplicationId :: u64
  alr_CurrentRound :: u64
  alr_LogData :: "ApplicationLogData list option"
  alr_NextToken :: "string option"

record ApplicationResponse =
  aresp_Application :: "Application option"
  aresp_CurrentRound :: u64

record ApplicationsResponse =
  arespo_Applications :: "Application list"
  arespo_CurrentRound :: u64
  arespo_NextToken :: "string option"

record AssetBalancesResponse =
  abr_Balances :: "MiniAssetHolding list"
  abr_CurrentRound :: u64
  abr_NextToken :: "string option"

record AssetHoldingsResponse =
  ahr_Assets :: "AssetHolding list"
  ahr_CurrentRound :: u64
  ahr_NextToken :: "string option"

record AssetResponse =
  asr_Asset :: Asset
  asr_CurrentRound :: u64

record AssetsResponse =
  assr_Assets :: "Asset list"
  assr_CurrentRound :: u64
  assr_NextToken :: "string option"

record 'v ErrorResponse =
  ere_Data :: "(string \<rightharpoonup> 'v) option"
  ere_Message :: string

type_synonym 'v HealthCheckResponse = "'v HealthCheck"

record TransactionResponse =
  tre_CurrentRound :: u64
  tre_Transaction :: Transaction

record TransactionsResponse =
  tres_CurrentRound :: u64
  tres_NextToken :: "string option"
  tres_Transactions :: "Transaction list"

section \<open>Parameters of requests\<close>

record SearchForAccountsParams =
  sfap_AssetId :: "u64 option"
  sfap_Limit :: "u64 option"
  sfap_Next :: "string option"
  sfap_CurrencyGreaterThan :: "u64 option"
  sfap_IncludeAll :: "bool option"
  sfap_Exclude :: "string list option"
  sfap_CurrencyLessThan :: "u64 option"
  sfap_AuthAddr :: "string option"
  sfap_Round :: "u64 option"
  sfap_ApplicationId :: "u64 option"

record LookupAccountByIDParams =
  labidp_Round :: "u64 option"
  labidp_IncludeAll :: "bool option"
  labidp_Exclude :: "string list option"

record LookupAccountAppLocalStatesParams =
  laalsp_ApplicationId :: "u64 option"
  laalsp_IncludeAll :: "bool option"
  laalsp_Limit :: "u64 option"
  laalsp_Next :: "string option"

record LookupAccountAssetsParams =
  laap_AssetId :: "u64 option"
  laap_IncludeAll :: "bool option"
  laap_Limit :: "u64 option"
  laap_Next :: "string option"

record LookupAccountCreatedApplicationsParams =
  lacap_ApplicationId :: "u64 option"
  lacap_IncludeAll :: "bool option"
  lacap_Limit :: "u64 option"
  lacap_Next :: "string option"

record LookupAccountCreatedAssetsParams =
  lacapa_AssetId :: "u64 option"
  lacapa_IncludeAll :: "bool option"
  lacapa_Limit :: "u64 option"
  lacapa_Next :: "string option"

record LookupAccountTransactionsParams =
  latp_Limit :: "u64 option"
  latp_Next :: "string option"
  latp_NotePrefix :: "string option"
  latp_TxType :: "string option"
  latp_SigType :: "string option"
  latp_Txid :: "string option"
  latp_Round :: "u64 option"
  latp_MinRound :: "u64 option"
  latp_MaxRound :: "u64 option"
  latp_AssetId :: "u64 option"
  latp_BeforeTime :: "instant option"
  latp_AfterTime :: "instant option"
  latp_CurrencyGreaterThan :: "u64 option"
  latp_CurrencyLessThan :: "u64 option"
  latp_RekeyTo :: "bool option"

record SearchForApplicationsParams =
  sfapa_ApplicationId :: "u64 option"
  sfapa_Creator :: "string option"
  sfapa_IncludeAll :: "bool option"
  sfapa_Limit :: "u64 option"
  sfapa_Next :: "string option"

record LookupApplicationByIDParams =
  labidpa_IncludeAll :: "bool option"

record LookupApplicationLogsByIDParams =
  lalbidp_Limit :: "u64 option"
  lalbidp_Next :: "string option"
  lalbidp_Txid :: "string option"
  lalbidp_MinRound :: "u64 option"
  lalbidp_MaxRound :: "u64 option"
  lalbidp_SenderAddress :: "string option"

record SearchForAssetsParams =
  sfapar_IncludeAll :: "bool option"
  sfapar_Limit :: "u64 option"
  sfapar_Next :: "string option"
  sfapar_Creator :: "string option"
  sfapar_Name :: "string option"
  sfapar_Unit :: "string option"
  sfapar_AssetId :: "u64 option"

record LookupAssetByIDParams =
  labidpar_IncludeAll :: "bool option"

record LookupAssetBalancesParams =
  labp_IncludeAll :: "bool option"
  labp_Limit :: "u64 option"
  labp_Next :: "string option"
  labp_CurrencyGreaterThan :: "u64 option"
  labp_CurrencyLessThan :: "u64 option"

record LookupAssetTransactionsParams =
  latpa_Limit :: "u64 option"
  latpa_Next :: "string option"
  latpa_NotePrefix :: "string option"
  latpa_TxType :: "string option"
  latpa_SigType :: "string option"
  latpa_Txid :: "string option"
  latpa_Round :: "u64 option"
  latpa_MinRound :: "u64 option"
  latpa_MaxRound :: "u64 option"
  latpa_BeforeTime :: "instant option"
  latpa_AfterTime :: "instant option"
  latpa_CurrencyGreaterThan :: "u64 option"
  latpa_CurrencyLessThan :: "u64 option"
  latpa_Address :: "string option"
  latpa_AddressRole :: "string option"
  latpa_ExcludeCloseTo :: "bool option"
  latpa_RekeyTo :: "bool option"

record SearchForTransactionsParams =
  sftp_Limit :: "u64 option"
  sftp_Next :: "string option"
  sftp_NotePrefix :: "string option"
  sftp_TxType :: "string option"
  sftp_SigType :: "string option"
  sftp_Txid :: "string option"
  sftp_Round :: "u64 option"
  sftp_MinRound :: "u64 option"
  sftp_MaxRound :: "u64 option"
  sftp_AssetId :: "u64 option"
  sftp_BeforeTime :: "instant option"
  sftp_AfterTime :: "instant option"
  sftp_CurrencyGreaterThan :: "u64 option"
  sftp_CurrencyLessThan :: "u64 option"
  sftp_Address :: "string option"
  sftp_AddressRole :: "string option"
  sftp_ExcludeCloseTo :: "bool option"
  sftp_RekeyTo :: "bool option"
  sftp_ApplicationId :: "u64 option"

end
