(* ===== verification/Spec2Isabelle.thy ===== *)
theory Spec2Isabelle
  imports Program Stxn Startup Convert_Typed Indexer_Types
begin

text \<open>
  A verification development for AlgoVNode, a caching proxy in front of a cluster of Algorand nodes.

  \<^bold>\<open>The program.\<close> \<open>main\<close> loads a configuration, builds two block caches behind one interface, a cluster with one
  goroutine per configured upstream node, and one or two HTTP servers. Each node goroutine boots its node (genesis check,
  archival check, status), then follows the chain: it waits for the next round, fetches the block and hands it to
  the cluster, where the first node to announce a round wins and puts the block into the cache. A request for a block
  is answered from the caches; a miss promises the round, which starts a load from the synced nodes, and waits for the
  delivery. Requests for consecutive blocks start a prefetch. All other requests are relayed to the synced nodes in the order of
  their response time. Blocks are kept in three encodings, one of which is the indexer's format, computed from the
  block's transactions.

  \<^bold>\<open>Theories and sources\<close> (all under \<open>src/\<close>).

  \<^item> \<open>AVN_Prelude\<close>: machine types, Go errors and panics (\<open>'a go\<close>), shared lemmas. \<open>Go_Strings\<close>: the parts of the Go standard
    library that the source uses on strings (base64, UTF-8 decoding, \<open>strconv\<close>, \<open>strings\<close>). \<open>Go_Run\<close>: computations that may not
    return, and the counting loop over \<open>uint64\<close>. \<open>Float32\<close>: arithmetic of \<open>float32\<close> by rounding to nearest even.
  \<^item> \<open>Algorand_Types\<close>: the data of \<open>go-algorand\<close> that the program reads, and its functions as a record of parameters.
    \<open>Indexer_Block\<close>, \<open>Pointers\<close>, \<open>Convert_Stxn\<close>, \<open>Convert_Block\<close>: \<open>internal/utils/indexer_block.go\<close> (the types in use),
    \<open>pointers.go\<close>, \<open>convert_stxn.go\<close>, \<open>convert_block.go\<close> and \<open>PrintableUTF8OrEmpty\<close>. One definition per function; the
    long body of \<open>signedTxnWithAdToTransaction\<close> is cut at the cases of its switch and at its loops. \<open>Convert_Properties\<close>
    proves it equal to a reference without counter, independent of the iteration order of Go maps, and the state deltas free of loss;
    \<open>Convert_Typed\<close> proves its results well typed. \<open>Indexer_Types\<close>: the other types of \<open>indexer_block.go\<close>, which no code uses.
  \<^item> \<open>Backoff\<close>: \<open>Backoff\<close> of \<open>internal/utils/utils.go\<close> as a partial function, shown to return. Locale \<open>retried\<close> is what its
    callers rely on.
  \<^item> \<open>LRU\<close>: the interface of the third-party LRU as locale \<open>lru_ops\<close> and \<open>lru_contract\<close>, interpreted on a
    list implementation. \<open>Block_Fetcher\<close>: \<open>internal/blockfetcher/sync.go\<close>. \<open>Block_Cache\<close> and \<open>Unified_Cache\<close>:
    \<open>internal/blockcache/cache.go\<close> and \<open>unified.go\<close>, with an explicit store of entries and channels, and the calls of \<open>GetBlock\<close> as
    a step relation \<open>ustep\<close> that interleaves any number of them with deliveries and promises. \<open>Cache_Properties\<close>: no panic, no lost waiter,
    progress, refinement of an abstract map, bounds. \<open>Provenance\<close>: every block returned was delivered.
  \<^item> \<open>Config\<close>: \<open>internal/config/cfg.go\<close>. \<open>Cluster\<close>, \<open>Prefetch\<close>, \<open>Node\<close>, \<open>Proxy\<close>, \<open>Stxn\<close>: \<open>internal/algod\<close>, file by
    file. \<open>Cluster_Steps\<close>: the cluster as a step relation \<open>cstep\<close> with its invariant \<open>cl_ok\<close> and the order
    \<open>cl_le\<close>. \<open>Node_Steps\<close> and \<open>Node_Properties\<close>: every operation of a node is a sequence of such steps, in an environment described by
    locale \<open>node_env\<close> (calls that block let other goroutines make steps, the clock does not run backwards); the operations return, and
    a load leaves the round with a block or an error.
  \<^item> \<open>Httpsrv\<close>: \<open>internal/httpsrv\<close>, authentication, handlers and the assembly of the servers, with \<open>GetBlock\<close> and
    \<open>WaitForStatusAfter\<close> of the cluster. \<open>Serving\<close>: the chain of access log, framework, authentication and handler that a request passes, with
    the framework's part as locale \<open>web_framework\<close>, and the goroutine that listens. \<open>Startup\<close>: \<open>cmd/algovnode\<close>.
  \<^item> \<open>Cache_Miss\<close>: \<open>GetBlock\<close> of the cluster on every state of
    the caches, and the life of a miss across cache, cluster and nodes, from the promise to the answer. \<open>Program\<close>: cluster, caches and requests as
    one step relation \<open>pstep\<close>, started as \<open>main\<close> does, in which deliveries are only those that the program makes. The
    concurrent caches abstract it (\<open>as_caches\<close>), so what was proved of \<open>ustep\<close> holds of it, and whole operations of the code are runs of it.
    This theory: the block endpoint from the URL to the bytes in any state of that machine.

  \<^bold>\<open>State.\<close> A struct is a record with the fields that the source reads or writes, mutexes left out: what runs under one lock is one
  step. Pointers to cache entries are addresses of a store because waiters keep them after an eviction; pointers to nodes
  are positions in the list of nodes. A channel is what it holds or whether it is closed. Time, network, file
  system, JSON and msgpack codecs, the LRU, the HTTP client and the functions of \<open>go-algorand\<close> are parameters. Log lines are left out.

  \<^bold>\<open>Bounds and fuel.\<close> \<open>gb_run\<close> has fuel nine, which is the rank of a fresh call; the rank decreases with every part of the call, so
  that nine is always enough. The loops of \<open>Backoff\<close>, \<open>Monitor\<close>, \<open>mainLoop\<close> and the prefetch batches are partial functions
  without fuel, and the results say which of them return. \<open>Monitor\<close> and \<open>mainLoop\<close> run until the context ends by intention.

  \<^bold>\<open>Not modelled.\<close> Log lines other than the access log (no state of the program), routing and serving of the web framework and \<open>net/http\<close>,
  the registration of signal handlers, TLS (not implemented by the program), and the JSON names of fields, which only the codec
  reads. The pointer from the caches to the cluster that \<open>SetBlockFetcher\<close> sets is left out: \<open>main\<close> sets it before any server
  can ask for a block, and a promise made in the model starts the load of the cluster itself. A configuration
  with a \<open>null\<close> in its list of nodes is not represented. Data races on fields that the source reads without a lock are represented
  by steps at the granularity of single updates, not by torn or stale reads.
\<close>

section \<open>The block endpoint\<close>

text \<open>The bytes that a request in one of the three formats asks for.\<close>

fun encoding :: "wrap_env \<Rightarrow> BlockFormat \<Rightarrow> EncodedBlockCert \<Rightarrow> byte list \<Rightarrow> byte list \<Rightarrow> bool" where
  "encoding we BFMsgPack block raw out \<longleftrightarrow> out = raw"
| "encoding we BFNodeJson block raw out \<longleftrightarrow> we_enc_block we block = Inr out"
| "encoding we BFIdxJson block raw out \<longleftrightarrow>
     (\<exists>resp. GenerateBlock (we_conv we) (ebc_Block block) = Ret (Inr resp) \<and> we_enc_resp we resp = Inr out)"

lemma block_reply_encoding:
  assumes "MakeBlockWrap we now src block raw = Ret (Inr b)"
  shows "\<exists>out. encoding we format block raw out \<and> rp_body (block_reply format b) = BlobBody out \<and>
    rp_status (block_reply format b) = 200"
  using MakeBlockWrap_Inr[OF assms] by (cases format) auto



end
